theory Spec2Isabelle
  imports Main "HOL-Library.Word"
begin

unbundle bit_operations_syntax

section \<open>Values shared by the whole renderer\<close>

text \<open>
  The exceptions that \<^verbatim>\<open>renderer.py\<close> can raise are values; \<open>StructError\<close> is
  \<^verbatim>\<open>struct.error\<close>.
\<close>

datatype error = KeyError | IndexError | ValueError | StructError

text \<open>
  A colour is a triple of numbers. Python integers are unbounded, and the rows of the
  float table \<^verbatim>\<open>_specials_map\<close> hold whole numbers only, which compare and hash equal to
  the integers of the same value; both are \<open>int\<close> here.
\<close>

type_synonym rgb = "int \<times> int \<times> int"

text \<open>
  A two-dimensional numpy array is the list of its rows. An array without rows is taken to
  have no columns (numpy's shapes \<open>(0, w)\<close> with \<open>w > 0\<close> are not represented).
\<close>

type_synonym 'a grid = "'a list list"

definition ncols :: "'a grid \<Rightarrow> nat" where
  "ncols g = (case g of [] \<Rightarrow> 0 | r # _ \<Rightarrow> length r)"

definition has_shape :: "nat \<Rightarrow> nat \<Rightarrow> 'a grid \<Rightarrow> bool" where
  "has_shape h w g \<longleftrightarrow> length g = h \<and> list_all (\<lambda>r. length r = w) g"

section \<open>Colour tables (lines 25 to 58)\<close>

definition FOREGROUND_COLORS :: "string list" where
  "FOREGROUND_COLORS =
    [''#000000'', ''#770000'', ''#007700'', ''#aa7700'',
     ''#000077'', ''#aa00aa'', ''#00aaaa'', ''#ffffff'',
     ''#888888'', ''#ff0000'', ''#00ff00'', ''#ffff00'',
     ''#0000ff'', ''#ff00ff'', ''#00ffff'', ''#ffffff'']"

definition BACKGROUND_COLORS :: "(string \<times> string) list" where
  "BACKGROUND_COLORS =
    [(''cursor'', ''#555555''), (''corpse'', ''#0000aa''), (''invis'', ''#333333''),
     (''detect'', ''#333333''), (''pet'', ''#ffffff''), (''ridden'', ''#333333''),
     (''statue'', ''#333333''), (''objpile'', ''#333333''), (''bwlava'', ''#330000''),
     (''default'', ''#000000'')]"

section \<open>\<^verbatim>\<open>hex_string_to_color_tuple\<close> (lines 64 to 68)\<close>

definition hex_digit :: "char \<Rightarrow> int option" where
  "hex_digit ch =
    (let n = (of_char ch :: nat) in
     if 48 \<le> n \<and> n \<le> 57 then Some (int n - 48)
     else if 97 \<le> n \<and> n \<le> 102 then Some (int n - 87)
     else if 65 \<le> n \<and> n \<le> 70 then Some (int n - 55)
     else None)"

text \<open>
  \<^verbatim>\<open>int(s, 16)\<close> for a string of characters below 256, as CPython's
  \<^verbatim>\<open>PyLong_FromString\<close> reads it: whitespace around the number, an optional sign, an
  optional prefix \<^verbatim>\<open>0x\<close> or \<^verbatim>\<open>0X\<close> with one underscore allowed after it, then
  hexadecimal digits with single underscores between them; everything else raises
  \<^verbatim>\<open>ValueError\<close>. The whitespace is that of C's \<^verbatim>\<open>isspace\<close> (codes 9 to 13 and 32),
  and the two characters U+0085 and U+00A0, which the conversion of a string that is not
  ASCII turns into spaces.
\<close>

definition py_isspace :: "char \<Rightarrow> bool" where
  "py_isspace ch =
    (let n = (of_char ch :: nat) in (9 \<le> n \<and> n \<le> 13) \<or> n = 32 \<or> n = 133 \<or> n = 160)"

text \<open>
  The loop over the digits: \<open>acc\<close> is the value read so far and \<open>prev\<close> the character
  before. It stops at the first character that is neither a digit nor an underscore and
  returns the value with the rest of the string; two underscores in a row and an
  underscore before the end are syntax errors (\<open>None\<close>).
\<close>

fun scan_hex :: "int \<Rightarrow> char \<Rightarrow> string \<Rightarrow> (int \<times> string) option" where
  "scan_hex acc prev [] = (if prev = CHR ''_'' then None else Some (acc, []))"
| "scan_hex acc prev (ch # cs) =
    (if ch = CHR ''_'' then (if prev = CHR ''_'' then None else scan_hex acc ch cs)
     else case hex_digit ch of
            Some d \<Rightarrow> scan_hex (16 * acc + d) ch cs
          | None \<Rightarrow> if prev = CHR ''_'' then None else Some (acc, ch # cs))"

definition skip_sign :: "string \<Rightarrow> int \<times> string" where
  "skip_sign s =
    (case s of
       [] \<Rightarrow> (1, s)
     | ch # r \<Rightarrow> if ch = CHR ''+'' then (1, r) else if ch = CHR ''-'' then (- 1, r) else (1, s))"

definition skip_prefix :: "string \<Rightarrow> string" where
  "skip_prefix s =
    (case s of
       z # x # r \<Rightarrow>
        if z = CHR ''0'' \<and> (x = CHR ''x'' \<or> x = CHR ''X'')
        then (case r of [] \<Rightarrow> r | u # r' \<Rightarrow> if u = CHR ''_'' then r' else r)
        else s
     | _ \<Rightarrow> s)"

definition py_int16 :: "string \<Rightarrow> error + int" where
  "py_int16 s =
    (case skip_sign (dropWhile py_isspace s) of
       (sign, s2) \<Rightarrow>
        (let s3 = skip_prefix s2 in
         case s3 of
           [] \<Rightarrow> Inl ValueError
         | u # _ \<Rightarrow>
            if u = CHR ''_'' then Inl ValueError
            else (case scan_hex 0 (CHR 0x00) s3 of
                    None \<Rightarrow> Inl ValueError
                  | Some (v, rest) \<Rightarrow>
                     if length rest = length s3 then Inl ValueError
                     else if list_all py_isspace rest then Inr (sign * v)
                     else Inl ValueError)))"

text \<open>
  \<^verbatim>\<open>struct.unpack('4B', struct.pack('I', n))\<close>: the four bytes of the unsigned 32-bit
  integer \<open>n\<close> in the byte order of the host, which \<^verbatim>\<open>struct\<close> uses when the format has
  no byte-order character. \<^verbatim>\<open>struct.pack\<close> raises \<^verbatim>\<open>struct.error\<close> outside \<open>0 .. 2^32 - 1\<close>.
\<close>

datatype byteorder = Little | Big

definition pack_I_unpack_4B :: "byteorder \<Rightarrow> int \<Rightarrow> error + (int \<times> int \<times> int \<times> int)" where
  "pack_I_unpack_4B bo n =
    (if 0 \<le> n \<and> n < 2 ^ 32 then
       (let b0 = n mod 256; b1 = (n div 256) mod 256;
            b2 = (n div 65536) mod 256; b3 = (n div 16777216) mod 256
        in case bo of Little \<Rightarrow> Inr (b0, b1, b2, b3) | Big \<Rightarrow> Inr (b3, b2, b1, b0))
     else Inl StructError)"

definition hex_string_to_color_tuple :: "byteorder \<Rightarrow> string \<Rightarrow> error + rgb" where
  "hex_string_to_color_tuple bo hex_string =
    (case py_int16 (drop 1 hex_string) of
       Inl e \<Rightarrow> Inl e
     | Inr color_three_bytes \<Rightarrow>
        (case pack_I_unpack_4B bo color_three_bytes of
           Inl e \<Rightarrow> Inl e
         | Inr (blue, green, red, _) \<Rightarrow> Inr (red, green, blue)))"

section \<open>\<^verbatim>\<open>get_special_background\<close> (lines 71 to 90)\<close>

text \<open>
  The masks \<^verbatim>\<open>MG_CORPSE\<close> .. \<^verbatim>\<open>MG_BW_LAVA\<close> come from \<^verbatim>\<open>nle._pynethack.nethack\<close>, which is
  not part of this repository: they are a parameter. \<open>nle_flags\<close> holds the values of
  NetHack's \<^verbatim>\<open>display.h\<close>, used where a concrete instance is needed.
\<close>

record glyph_flags =
  MG_CORPSE :: int
  MG_INVIS :: int
  MG_DETECT :: int
  MG_PET :: int
  MG_RIDDEN :: int
  MG_STATUE :: int
  MG_OBJPILE :: int
  MG_BW_LAVA :: int

definition nle_flags :: glyph_flags where
  "nle_flags = \<lparr>MG_CORPSE = 1, MG_INVIS = 2, MG_DETECT = 4, MG_PET = 8,
     MG_RIDDEN = 16, MG_STATUE = 32, MG_OBJPILE = 64, MG_BW_LAVA = 128\<rparr>"

definition get_special_background :: "glyph_flags \<Rightarrow> int \<Rightarrow> string" where
  "get_special_background m special =
    (if special AND MG_CORPSE m \<noteq> 0 then ''corpse''
     else if special AND MG_INVIS m \<noteq> 0 then ''invis''
     else if special AND MG_DETECT m \<noteq> 0 then ''detect''
     else if special AND MG_PET m \<noteq> 0 then ''pet''
     else if special AND MG_RIDDEN m \<noteq> 0 then ''ridden''
     else if special AND MG_STATUE m \<noteq> 0 then ''statue''
     else if special AND MG_OBJPILE m \<noteq> 0 then ''objpile''
     else if special AND MG_BW_LAVA m \<noteq> 0 then ''bwlava''
     else ''default'')"

text \<open>
  The specification's wording of the same function, \<open>resolveSpecial\<close>: an ordered list of
  (situation, mask) pairs, of which the first one whose mask meets the bitfield wins.
\<close>

definition priority_list :: "glyph_flags \<Rightarrow> (string \<times> int) list" where
  "priority_list m =
    [(''corpse'', MG_CORPSE m), (''invis'', MG_INVIS m), (''detect'', MG_DETECT m),
     (''pet'', MG_PET m), (''ridden'', MG_RIDDEN m), (''statue'', MG_STATUE m),
     (''objpile'', MG_OBJPILE m), (''bwlava'', MG_BW_LAVA m)]"

definition resolveSpecial :: "glyph_flags \<Rightarrow> int \<Rightarrow> string" where
  "resolveSpecial m s =
    (case find (\<lambda>(name, mask). s AND mask \<noteq> 0) (priority_list m) of
       Some (name, _) \<Rightarrow> name
     | None \<Rightarrow> ''default'')"

section \<open>\<^verbatim>\<open>represent_char\<close> (lines 93 to 100)\<close>

text \<open>\<^verbatim>\<open>ord(' ')\<close> is 32, \<^verbatim>\<open>ord('`')\<close> is 96 (the character \<open>CHR 0x60\<close>), \<^verbatim>\<open>ord('0')\<close> is 48.\<close>

definition py_ord :: "char \<Rightarrow> int" where
  "py_ord ch = int (of_char ch)"

definition represent_char :: "int \<Rightarrow> int" where
  "represent_char c =
    (if c = 0 then py_ord (CHR '' '')
     else if c = py_ord (CHR 0x60) then py_ord (CHR ''0'')
     else c)"

section \<open>The numpy operations that \<^verbatim>\<open>render\<close> uses\<close>

text \<open>
  \<^verbatim>\<open>np.clip(a, lo, hi)\<close> is \<^verbatim>\<open>minimum(hi, maximum(a, lo))\<close>, element by element. The
  elements are integers here, whatever the dtype of the array.
\<close>

definition np_clip :: "int \<Rightarrow> int \<Rightarrow> int grid \<Rightarrow> int grid" where
  "np_clip lo hi a = map (map (\<lambda>v. min hi (max v lo))) a"

text \<open>\<^verbatim>\<open>np.pad(a, [[r0, r1], [c0, c1]])\<close>, which pads with zeros.\<close>

definition np_pad :: "nat \<Rightarrow> nat \<Rightarrow> nat \<Rightarrow> nat \<Rightarrow> int grid \<Rightarrow> int grid" where
  "np_pad r0 r1 c0 c1 a =
    (let z = replicate (c0 + ncols a + c1) 0
     in replicate r0 z
        @ map (\<lambda>r. replicate c0 0 @ r @ replicate c1 0) a
        @ replicate r1 z)"

text \<open>
  An integer index on an axis of length \<open>n\<close>: numpy counts a negative index from the end
  and raises \<^verbatim>\<open>IndexError\<close> outside \<open>-n .. n - 1\<close>.
\<close>

definition np_index :: "nat \<Rightarrow> int \<Rightarrow> error + nat" where
  "np_index n i =
    (if 0 \<le> i \<and> i < int n then Inr (nat i)
     else if - int n \<le> i \<and> i < 0 then Inr (nat (int n + i))
     else Inl IndexError)"

text \<open>\<^verbatim>\<open>table[idx]\<close> for an array \<open>idx\<close> of integers: one row of \<open>table\<close> for each element.\<close>

fun take_row :: "'a list \<Rightarrow> int list \<Rightarrow> error + 'a list" where
  "take_row table [] = Inr []"
| "take_row table (v # vs) =
    (case np_index (length table) v of
       Inl e \<Rightarrow> Inl e
     | Inr i \<Rightarrow> (case take_row table vs of Inl e \<Rightarrow> Inl e | Inr cs \<Rightarrow> Inr (table ! i # cs)))"

fun np_take :: "'a list \<Rightarrow> int grid \<Rightarrow> error + 'a grid" where
  "np_take table [] = Inr []"
| "np_take table (r # rs) =
    (case take_row table r of
       Inl e \<Rightarrow> Inl e
     | Inr cs \<Rightarrow> (case np_take table rs of Inl e \<Rightarrow> Inl e | Inr css \<Rightarrow> Inr (cs # css)))"

text \<open>\<^verbatim>\<open>a[y, x]\<close> read, for indices that come from \<^verbatim>\<open>range\<close> and so are not negative.\<close>

definition getitem2 :: "'a grid \<Rightarrow> nat \<Rightarrow> nat \<Rightarrow> error + 'a" where
  "getitem2 a y x =
    (if y < length a \<and> x < length (a ! y) then Inr (a ! y ! x) else Inl IndexError)"

text \<open>\<^verbatim>\<open>a[y, x] = v\<close> for integers \<open>y\<close> and \<open>x\<close> of either sign.\<close>

definition setitem2 :: "'a grid \<Rightarrow> int \<Rightarrow> int \<Rightarrow> 'a \<Rightarrow> error + 'a grid" where
  "setitem2 a y x v =
    (case np_index (length a) y of
       Inl e \<Rightarrow> Inl e
     | Inr r \<Rightarrow>
        (case np_index (ncols a) x of
           Inl e \<Rightarrow> Inl e
         | Inr c \<Rightarrow> Inr (a[r := (a ! r)[c := v]])))"

text \<open>
  \<^verbatim>\<open>np.hstack\<close> and \<^verbatim>\<open>np.vstack\<close> of arrays of shape \<open>(h, w, 3)\<close>: concatenation along
  axis 1 and along axis 0. Both raise \<^verbatim>\<open>ValueError\<close> for an empty sequence and for
  arrays that differ along the other axis.
\<close>

definition np_hstack :: "'a grid list \<Rightarrow> error + 'a grid" where
  "np_hstack ps =
    (case ps of
       [] \<Rightarrow> Inl ValueError
     | p # _ \<Rightarrow>
        if list_all (\<lambda>q. length q = length p) ps
        then Inr (map (\<lambda>i. concat (map (\<lambda>q. q ! i) ps)) [0..<length p])
        else Inl ValueError)"

definition np_vstack :: "'a grid list \<Rightarrow> error + 'a grid" where
  "np_vstack rs =
    (case rs of
       [] \<Rightarrow> Inl ValueError
     | r # _ \<Rightarrow>
        if list_all (\<lambda>q. ncols q = ncols r) rs
        then Inr (concat rs)
        else Inl ValueError)"

section \<open>\<^verbatim>\<open>ImageRenderer.__init__\<close> (lines 106 to 121)\<close>

text \<open>
  A pixel is three bytes. The text backend is the parameter \<open>font\<close>: \<open>font self c fg bg\<close>
  is \<^verbatim>\<open>pg.surfarray.array3d(self._font.render(c, True, fg, bg)).swapaxes(0, 1)\<close>, the rows of
  the surface that pygame draws for the character with code \<open>c\<close>. It is taken to be a
  function of its three arguments.
\<close>

type_synonym pixel = "8 word \<times> 8 word \<times> 8 word"
type_synonym patch = "pixel grid"
type_synonym backend = "int \<Rightarrow> rgb \<Rightarrow> rgb \<Rightarrow> patch"

record renderer =
  font :: backend
  colors_map :: "rgb list"
  bgcolors :: "(string \<times> rgb) list"
  specials_map :: "rgb list"

fun map_colors :: "byteorder \<Rightarrow> string list \<Rightarrow> error + rgb list" where
  "map_colors bo [] = Inr []"
| "map_colors bo (h # hs) =
    (case hex_string_to_color_tuple bo h of
       Inl e \<Rightarrow> Inl e
     | Inr c \<Rightarrow> (case map_colors bo hs of Inl e \<Rightarrow> Inl e | Inr cs \<Rightarrow> Inr (c # cs)))"

fun map_bgcolors :: "byteorder \<Rightarrow> (string \<times> string) list \<Rightarrow> error + (string \<times> rgb) list" where
  "map_bgcolors bo [] = Inr []"
| "map_bgcolors bo ((k, v) # kvs) =
    (case hex_string_to_color_tuple bo v of
       Inl e \<Rightarrow> Inl e
     | Inr c \<Rightarrow> (case map_bgcolors bo kvs of Inl e \<Rightarrow> Inl e | Inr cs \<Rightarrow> Inr ((k, c) # cs)))"

text \<open>The loop of lines 120 and 121 over the values \<open>ss\<close> of \<open>s\<close> that are still to come.\<close>

fun fill_specials_map ::
  "glyph_flags \<Rightarrow> (string \<times> rgb) list \<Rightarrow> nat list \<Rightarrow> rgb list \<Rightarrow> error + rgb list" where
  "fill_specials_map m bgc [] table = Inr table"
| "fill_specials_map m bgc (s # ss) table =
    (case map_of bgc (get_special_background m (int s)) of
       None \<Rightarrow> Inl KeyError
     | Some c \<Rightarrow> fill_specials_map m bgc ss (table[s := c]))"

definition init :: "byteorder \<Rightarrow> glyph_flags \<Rightarrow> backend \<Rightarrow> error + renderer" where
  "init bo m fnt =
    (case map_colors bo FOREGROUND_COLORS of
       Inl e \<Rightarrow> Inl e
     | Inr cm \<Rightarrow>
        (case map_bgcolors bo BACKGROUND_COLORS of
           Inl e \<Rightarrow> Inl e
         | Inr bgc \<Rightarrow>
            (case fill_specials_map m bgc [0..<256] (replicate 256 (0, 0, 0)) of
               Inl e \<Rightarrow> Inl e
             | Inr sm \<Rightarrow>
                Inr \<lparr>font = fnt, colors_map = cm, bgcolors = bgc, specials_map = sm\<rparr>)))"

section \<open>\<^verbatim>\<open>ImageRenderer._render_char\<close> (lines 123 to 136)\<close>

text \<open>
  The module's dictionary \<^verbatim>\<open>TILE_CACHE\<close> is state, passed explicitly. \<open>font_calls\<close> counts
  the invocations of the text backend; the program has no such counter, it is there to
  state when the backend runs. The key holds the code of the one-character string \<open>c\<close>.
\<close>

type_synonym tile_key = "int \<times> rgb \<times> rgb"

record world =
  TILE_CACHE :: "tile_key \<rightharpoonup> patch"
  font_calls :: nat

definition empty_world :: world where
  "empty_world = \<lparr>TILE_CACHE = Map.empty, font_calls = 0\<rparr>"

text \<open>\<^verbatim>\<open>single_character[:16, :8]\<close>\<close>

definition fixed_size :: "patch \<Rightarrow> patch" where
  "fixed_size single_character = map (take 8) (take 16 single_character)"

definition render_char :: "renderer \<Rightarrow> int \<Rightarrow> rgb \<Rightarrow> rgb \<Rightarrow> world \<Rightarrow> patch \<times> world" where
  "render_char self c color background st =
    (let key = (c, color, background) in
     case TILE_CACHE st key of
       Some tile \<Rightarrow> (tile, st)
     | None \<Rightarrow>
        (let single_character = font self c color background;
             single_character_fixed_size = fixed_size single_character
         in (single_character_fixed_size,
             st\<lparr>TILE_CACHE := (TILE_CACHE st)(key \<mapsto> single_character_fixed_size),
                font_calls := font_calls st + 1\<rparr>)))"

text \<open>
  The cache states that calls of \<open>render_char\<close> build up from the empty dictionary. Every
  renderer of a process draws with the same font, so one backend \<open>fnt\<close> fills the cache.
\<close>

inductive accumulated :: "backend \<Rightarrow> world \<Rightarrow> bool" for fnt :: backend where
  accumulated_empty: "accumulated fnt empty_world"
| accumulated_step:
    "accumulated fnt st \<Longrightarrow> font self = fnt \<Longrightarrow>
     accumulated fnt (snd (render_char self c color background st))"

section \<open>\<^verbatim>\<open>ImageRenderer.render\<close> (lines 138 to 186)\<close>

text \<open>
  The observation dictionary, as the keys that \<open>render\<close> reads: \<open>None\<close> is an absent key.
  \<open>tty_cursor\<close> is the pair \<^verbatim>\<open>(obs['tty_cursor'][0], obs['tty_cursor'][1])\<close>.
\<close>

record observation =
  tty_chars :: "int grid option"
  tty_colors :: "int grid option"
  specials :: "int grid option"
  tty_background :: "int grid option"
  tty_cursor :: "(int \<times> int) option"

text \<open>Lines 157 and 158.\<close>

definition render_foreground ::
  "renderer \<Rightarrow> observation \<Rightarrow> rgb grid option \<Rightarrow> error + rgb grid" where
  "render_foreground self obs foreground_colors =
    (case foreground_colors of
       Some fg \<Rightarrow> Inr fg
     | None \<Rightarrow>
        (case tty_colors obs of
           None \<Rightarrow> Inl KeyError
         | Some tc \<Rightarrow> np_take (colors_map self) (np_clip 0 15 tc)))"

text \<open>Lines 161 to 171: the background before the cursor is looked at.\<close>

definition derive_background :: "renderer \<Rightarrow> observation \<Rightarrow> error + rgb grid" where
  "derive_background self obs =
    (case specials obs of
       Some sp \<Rightarrow>
        (let padded_specials = np_clip 0 255 (np_pad 1 2 0 1 sp)
         in np_take (specials_map self) padded_specials)
     | None \<Rightarrow>
        (case tty_background obs of
           Some tb \<Rightarrow> np_take (colors_map self) (np_clip 0 15 tb)
         | None \<Rightarrow> Inr (replicate 24 (replicate 80 (0, 0, 0)))))"

text \<open>Lines 160 to 175.\<close>

definition render_background ::
  "renderer \<Rightarrow> observation \<Rightarrow> rgb grid option \<Rightarrow> error + rgb grid" where
  "render_background self obs background_colors =
    (case background_colors of
       Some bg \<Rightarrow> Inr bg
     | None \<Rightarrow>
        (case derive_background self obs of
           Inl e \<Rightarrow> Inl e
         | Inr bg \<Rightarrow>
            (case tty_cursor obs of
               None \<Rightarrow> Inr bg
             | Some (cx, cy) \<Rightarrow>
                (case map_of (bgcolors self) ''cursor'' of
                   None \<Rightarrow> Inl KeyError
                 | Some cursor_color \<Rightarrow> setitem2 bg cy cx cursor_color))))"

text \<open>\<^verbatim>\<open>chr(i)\<close> raises \<^verbatim>\<open>ValueError\<close> outside \<open>0 .. 0x10FFFF\<close>; the character is its code.\<close>

definition py_chr :: "int \<Rightarrow> error + int" where
  "py_chr i = (if 0 \<le> i \<and> i \<le> 1114111 then Inr i else Inl ValueError)"

text \<open>\<^verbatim>\<open>_render_pos\<close>, lines 179 to 183: the arguments are evaluated from left to right.\<close>

definition render_pos ::
  "renderer \<Rightarrow> int grid \<Rightarrow> rgb grid \<Rightarrow> rgb grid \<Rightarrow> nat \<Rightarrow> nat \<Rightarrow> world
    \<Rightarrow> (error + patch) \<times> world" where
  "render_pos self chars fg bg x y st =
    (case getitem2 chars y x of
       Inl e \<Rightarrow> (Inl e, st)
     | Inr code \<Rightarrow>
    (case py_chr (represent_char code) of
       Inl e \<Rightarrow> (Inl e, st)
     | Inr c \<Rightarrow>
    (case getitem2 fg y x of
       Inl e \<Rightarrow> (Inl e, st)
     | Inr color \<Rightarrow>
    (case getitem2 bg y x of
       Inl e \<Rightarrow> (Inl e, st)
     | Inr background \<Rightarrow>
        (case render_char self c color background st of (tile, st') \<Rightarrow> (Inr tile, st'))))))"

text \<open>
  A list comprehension whose element may raise and changes the state: the elements are
  computed in order, and an exception leaves the state as the calls before it made it.
\<close>

fun comprehension ::
  "('a \<Rightarrow> world \<Rightarrow> (error + 'b) \<times> world) \<Rightarrow> 'a list \<Rightarrow> world \<Rightarrow> (error + 'b list) \<times> world" where
  "comprehension f [] st = (Inr [], st)"
| "comprehension f (x # xs) st =
    (case f x st of
       (Inl e, st') \<Rightarrow> (Inl e, st')
     | (Inr v, st') \<Rightarrow>
        (case comprehension f xs st' of
           (Inl e, st'') \<Rightarrow> (Inl e, st'')
         | (Inr vs, st'') \<Rightarrow> (Inr (v # vs), st'')))"

text \<open>\<^verbatim>\<open>np.hstack([_render_pos(x, y) for x in range(80)])\<close>\<close>

definition render_row ::
  "renderer \<Rightarrow> int grid \<Rightarrow> rgb grid \<Rightarrow> rgb grid \<Rightarrow> nat \<Rightarrow> world \<Rightarrow> (error + patch) \<times> world" where
  "render_row self chars fg bg y st =
    (case comprehension (\<lambda>x. render_pos self chars fg bg x y) [0..<80] st of
       (Inl e, st') \<Rightarrow> (Inl e, st')
     | (Inr tiles, st') \<Rightarrow> (np_hstack tiles, st'))"

text \<open>Lines 185 and 186: \<^verbatim>\<open>np.vstack([... for y in range(24)])\<close>\<close>

definition stack_tiles ::
  "renderer \<Rightarrow> int grid \<Rightarrow> rgb grid \<Rightarrow> rgb grid \<Rightarrow> world \<Rightarrow> (error + patch) \<times> world" where
  "stack_tiles self chars fg bg st =
    (case comprehension (render_row self chars fg bg) [0..<24] st of
       (Inl e, st') \<Rightarrow> (Inl e, st')
     | (Inr rows, st') \<Rightarrow> (np_vstack rows, st'))"

definition render ::
  "renderer \<Rightarrow> observation \<Rightarrow> rgb grid option \<Rightarrow> rgb grid option \<Rightarrow> world
    \<Rightarrow> (error + patch) \<times> world" where
  "render self obs foreground_colors background_colors st =
    (case render_foreground self obs foreground_colors of
       Inl e \<Rightarrow> (Inl e, st)
     | Inr fg \<Rightarrow>
    (case render_background self obs background_colors of
       Inl e \<Rightarrow> (Inl e, st)
     | Inr bg \<Rightarrow>
    (case tty_chars obs of
       None \<Rightarrow> (Inl KeyError, st)
     | Some tc \<Rightarrow> stack_tiles self (np_clip 0 255 tc) fg bg st)))"

section \<open>Notions used to state the properties\<close>

text \<open>An array with at least \<open>h\<close> rows and \<open>w\<close> columns.\<close>

definition covers :: "nat \<Rightarrow> nat \<Rightarrow> 'a grid \<Rightarrow> bool" where
  "covers h w g \<longleftrightarrow> h \<le> length g \<and> list_all (\<lambda>r. w \<le> length r) g"

text \<open>
  The glyph of a cell: the patch that the backend draws for the cell's character and
  colours, cut to 16 rows and 8 columns.
\<close>

definition glyph :: "renderer \<Rightarrow> int grid \<Rightarrow> rgb grid \<Rightarrow> rgb grid \<Rightarrow> nat \<Rightarrow> nat \<Rightarrow> patch" where
  "glyph self chars fg bg row col =
    fixed_size (font self (represent_char (chars ! row ! col)) (fg ! row ! col) (bg ! row ! col))"

text \<open>The cache holds nothing but cut patches of the backend \<open>fnt\<close>.\<close>

definition cache_ok :: "backend \<Rightarrow> world \<Rightarrow> bool" where
  "cache_ok fnt st \<longleftrightarrow>
    (\<forall>c fg bg p. TILE_CACHE st (c, fg, bg) = Some p \<longrightarrow> p = fixed_size (fnt c fg bg))"

text \<open>
  The shapes that the interface declares for one call of \<open>render\<close>: 24 by 80 for the grid
  of characters and for each grid of colours or colour indices that the call reads, 21 by
  79 for \<open>specials\<close>, and a cursor inside the 24 by 80 grid where the call reads it.
\<close>

definition declared_shapes :: "observation \<Rightarrow> rgb grid option \<Rightarrow> rgb grid option \<Rightarrow> bool" where
  "declared_shapes obs foreground_colors background_colors \<longleftrightarrow>
    (case tty_chars obs of None \<Rightarrow> False | Some tc \<Rightarrow> has_shape 24 80 tc) \<and>
    (case foreground_colors of
       Some fg \<Rightarrow> has_shape 24 80 fg
     | None \<Rightarrow> (case tty_colors obs of None \<Rightarrow> False | Some tc \<Rightarrow> has_shape 24 80 tc)) \<and>
    (case background_colors of
       Some bg \<Rightarrow> has_shape 24 80 bg
     | None \<Rightarrow>
        (case specials obs of
           Some sp \<Rightarrow> has_shape 21 79 sp
         | None \<Rightarrow> (case tty_background obs of None \<Rightarrow> True | Some tb \<Rightarrow> has_shape 24 80 tb)) \<and>
        (case tty_cursor obs of
           None \<Rightarrow> True
         | Some (cx, cy) \<Rightarrow> 0 \<le> cx \<and> cx < 80 \<and> 0 \<le> cy \<and> cy < 24))"

text \<open>
  What \<open>render_pos\<close> returns from a cache that holds nothing but cut patches of the
  backend: the glyph of the cell, or the exception of the first argument that raises.
\<close>

definition pure_pos ::
  "renderer \<Rightarrow> int grid \<Rightarrow> rgb grid \<Rightarrow> rgb grid \<Rightarrow> nat \<Rightarrow> nat \<Rightarrow> error + patch" where
  "pure_pos self chars fg bg x y =
      (case getitem2 chars y x of Inl e \<Rightarrow> Inl e | Inr code \<Rightarrow>
       case py_chr (represent_char code) of Inl e \<Rightarrow> Inl e | Inr c \<Rightarrow>
       case getitem2 fg y x of Inl e \<Rightarrow> Inl e | Inr color \<Rightarrow>
       case getitem2 bg y x of Inl e \<Rightarrow> Inl e | Inr background \<Rightarrow>
         Inr (fixed_size (font self c color background)))"

text \<open>
  The image made of the glyphs of the 24 by 80 cells: row \<open>row\<close> of the grid is the
  glyphs of its 80 cells side by side, and the image is the 24 rows one under another.
\<close>

definition tile_row :: "renderer \<Rightarrow> int grid \<Rightarrow> rgb grid \<Rightarrow> rgb grid \<Rightarrow> nat \<Rightarrow> patch" where
  "tile_row self chars fg bg row =
    map (\<lambda>i. concat (map (\<lambda>col. glyph self chars fg bg row col ! i) [0..<80])) [0..<16]"

definition tiled_image :: "renderer \<Rightarrow> int grid \<Rightarrow> rgb grid \<Rightarrow> rgb grid \<Rightarrow> patch" where
  "tiled_image self chars fg bg = concat (map (tile_row self chars fg bg) [0..<24])"

text \<open>The first 24 rows and 80 columns of an array: \<^verbatim>\<open>a[:24, :80]\<close>.\<close>

definition top_left :: "'a grid \<Rightarrow> 'a grid" where
  "top_left a = map (take 80) (take 24 a)"

section \<open>A concrete backend\<close>

text \<open>A backend that draws every character as a black patch of 16 rows and 8 columns.\<close>

definition blank_font :: backend where
  "blank_font c fg bg = replicate 16 (replicate 8 (0, 0, 0))"

text \<open>
  A backend whose patches have 17 rows and 9 columns: the top-left pixel shows the
  character code, the rest of the first row the foreground colour, and every other row the
  background colour.
\<close>

definition sample_font :: backend where
  "sample_font c color background =
    (let px = (\<lambda>(r, g, b). (of_int r, of_int g, of_int b) :: pixel)
     in ((of_int c, of_int c, of_int c) # replicate 8 (px color))
        # replicate 16 (replicate 9 (px background)))"

text \<open>A grid of characters in which the cell of row \<open>r\<close> and column \<open>c\<close> holds the code \<open>3 r + c\<close>.\<close>

definition sample_chars :: "int grid" where
  "sample_chars = map (\<lambda>r. map (\<lambda>c. 3 * int r + int c) [0..<80]) [0..<24]"

section \<open>Colour conversion\<close>

lemma hex_digit_range: "hex_digit ch = Some d \<Longrightarrow> 0 \<le> d \<and> d < 16"
  by (auto simp: hex_digit_def Let_def split: if_splits)

lemma hex_digit_plain:
  assumes "hex_digit ch = Some d"
  shows "\<not> py_isspace ch" "ch \<noteq> CHR ''+''" "ch \<noteq> CHR ''-''" "ch \<noteq> CHR ''_''"
    "ch \<noteq> CHR ''x''" "ch \<noteq> CHR ''X''"
  using assms by (auto simp: hex_digit_def py_isspace_def Let_def split: if_splits)

lemma hex_pair_range:
  fixes a b :: int
  assumes "0 \<le> a \<and> a < 16" "0 \<le> b \<and> b < 16"
  shows "0 \<le> 16 * a + b" "16 * a + b < 256"
  using assms by linarith+

lemma py_int16_six:
  assumes "hex_digit r1 = Some a1" "hex_digit r2 = Some a2" "hex_digit g1 = Some a3"
    "hex_digit g2 = Some a4" "hex_digit b1 = Some a5" "hex_digit b2 = Some a6"
  shows "py_int16 [r1, r2, g1, g2, b1, b2]
     = Inr (65536 * (16 * a1 + a2) + 256 * (16 * a3 + a4) + (16 * a5 + a6))"
proof -
  note p = assms[THEN hex_digit_plain(1)] assms[THEN hex_digit_plain(2)]
    assms[THEN hex_digit_plain(3)] assms[THEN hex_digit_plain(4)]
    assms[THEN hex_digit_plain(5)] assms[THEN hex_digit_plain(6)]
  have 1: "dropWhile py_isspace [r1, r2, g1, g2, b1, b2] = [r1, r2, g1, g2, b1, b2]"
    using p by simp
  have 2: "skip_sign [r1, r2, g1, g2, b1, b2] = (1, [r1, r2, g1, g2, b1, b2])"
    using p by (simp add: skip_sign_def)
  have 3: "skip_prefix [r1, r2, g1, g2, b1, b2] = [r1, r2, g1, g2, b1, b2]"
    using p by (simp add: skip_prefix_def)
  have 4: "scan_hex 0 (CHR 0x00) [r1, r2, g1, g2, b1, b2]
      = Some (65536 * (16 * a1 + a2) + 256 * (16 * a3 + a4) + (16 * a5 + a6), [])"
    using p assms by simp
  have "py_int16 [r1, r2, g1, g2, b1, b2] =
      (if length ([] :: string) = length [r1, r2, g1, g2, b1, b2] then Inl ValueError
       else if list_all py_isspace [] then
         Inr (1 * (65536 * (16 * a1 + a2) + 256 * (16 * a3 + a4) + (16 * a5 + a6)))
       else Inl ValueError)"
    by (simp only: py_int16_def 1 2 prod.case Let_def 3 list.case p(19) if_False 4 option.case)
  then show ?thesis by simp
qed

lemma split_byte:
  fixes k b :: int
  assumes "0 \<le> b" "b < 256"
  shows "(256 * k + b) mod 256 = b" "(256 * k + b) div 256 = k"
  using assms by simp_all

lemma three_bytes:
  fixes r g b :: int
  assumes "0 \<le> r" "r < 256" "0 \<le> g" "g < 256" "0 \<le> b" "b < 256"
  shows "(65536 * r + 256 * g + b) mod 256 = b"
    and "((65536 * r + 256 * g + b) div 256) mod 256 = g"
    and "((65536 * r + 256 * g + b) div 65536) mod 256 = r"
    and "(65536 * r + 256 * g + b) div 16777216 = 0"
proof -
  let ?n = "65536 * r + 256 * g + b"
  have n: "?n = 256 * (256 * r + g) + b" by simp
  show "?n mod 256 = b" unfolding n using assms by (rule_tac split_byte)
  have d1: "?n div 256 = 256 * r + g" unfolding n using assms by (rule_tac split_byte)
  show "(?n div 256) mod 256 = g" unfolding d1 using assms by (rule_tac split_byte)
  have "?n div 65536 = (?n div 256) div 256"
    by (simp add: div_mult2_eq[symmetric])
  also have "\<dots> = r" unfolding d1 using assms by (rule_tac split_byte)
  finally have d2: "?n div 65536 = r" .
  show "(?n div 65536) mod 256 = r" unfolding d2 using assms by simp
  have "?n div 16777216 = (?n div 65536) div 256"
    by (simp add: div_mult2_eq[symmetric])
  then show "?n div 16777216 = 0" unfolding d2 using assms by simp
qed

lemma pack_three_bytes:
  fixes r g b :: int
  assumes "0 \<le> r" "r < 256" "0 \<le> g" "g < 256" "0 \<le> b" "b < 256"
  shows "pack_I_unpack_4B Little (65536 * r + 256 * g + b) = Inr (b, g, r, 0)"
    and "pack_I_unpack_4B Big (65536 * r + 256 * g + b) = Inr (0, r, g, b)"
proof -
  let ?n = "65536 * r + 256 * g + b"
  have lo: "0 \<le> ?n" using assms by linarith
  have hi: "?n < 2 ^ 32" using assms by simp
  note tb = three_bytes[OF assms]
  show "pack_I_unpack_4B Little ?n = Inr (b, g, r, 0)"
    unfolding pack_I_unpack_4B_def Let_def tb using lo hi by simp
  show "pack_I_unpack_4B Big ?n = Inr (0, r, g, b)"
    unfolding pack_I_unpack_4B_def Let_def tb using lo hi by simp
qed

lemma hex_six_digits:
  assumes "hex_digit r1 = Some a1" "hex_digit r2 = Some a2" "hex_digit g1 = Some a3"
    "hex_digit g2 = Some a4" "hex_digit b1 = Some a5" "hex_digit b2 = Some a6"
  shows "hex_string_to_color_tuple Little [h, r1, r2, g1, g2, b1, b2]
     = Inr (16 * a1 + a2, 16 * a3 + a4, 16 * a5 + a6)"
    and "hex_string_to_color_tuple Big [h, r1, r2, g1, g2, b1, b2]
     = Inr (16 * a3 + a4, 16 * a1 + a2, 0)"
proof -
  note r = assms[THEN hex_digit_range]
  note rng = hex_pair_range[OF r(1) r(2)] hex_pair_range[OF r(3) r(4)]
        hex_pair_range[OF r(5) r(6)]
  note p = pack_three_bytes[OF rng]
  show "hex_string_to_color_tuple Little [h, r1, r2, g1, g2, b1, b2]
     = Inr (16 * a1 + a2, 16 * a3 + a4, 16 * a5 + a6)"
    unfolding hex_string_to_color_tuple_def
    by (simp only: drop_Suc_Cons drop_0 One_nat_def py_int16_six[OF assms] p sum.case prod.case)
  show "hex_string_to_color_tuple Big [h, r1, r2, g1, g2, b1, b2]
     = Inr (16 * a3 + a4, 16 * a1 + a2, 0)"
    unfolding hex_string_to_color_tuple_def
    by (simp only: drop_Suc_Cons drop_0 One_nat_def py_int16_six[OF assms] p sum.case prod.case)
qed

text \<open>The same in a form that evaluates a literal.\<close>

lemma hex_literal:
  assumes "hex_digit r1 \<noteq> None" "hex_digit r2 \<noteq> None" "hex_digit g1 \<noteq> None"
    "hex_digit g2 \<noteq> None" "hex_digit b1 \<noteq> None" "hex_digit b2 \<noteq> None"
  shows "hex_string_to_color_tuple bo [h, r1, r2, g1, g2, b1, b2] =
    (case bo of
       Little \<Rightarrow> Inr (16 * the (hex_digit r1) + the (hex_digit r2),
                      16 * the (hex_digit g1) + the (hex_digit g2),
                      16 * the (hex_digit b1) + the (hex_digit b2))
     | Big \<Rightarrow> Inr (16 * the (hex_digit g1) + the (hex_digit g2),
                   16 * the (hex_digit r1) + the (hex_digit r2), 0))"
proof -
  from assms obtain a1 a2 a3 a4 a5 a6 where
    d: "hex_digit r1 = Some a1" "hex_digit r2 = Some a2" "hex_digit g1 = Some a3"
      "hex_digit g2 = Some a4" "hex_digit b1 = Some a5" "hex_digit b2 = Some a6"
    by auto
  from hex_six_digits[OF d, of h] d show ?thesis by (cases bo) simp_all
qed

lemma hex_low_three_bytes:
  assumes "py_int16 (drop 1 s) = Inr n" "0 \<le> n" "n < 2 ^ 32"
  shows "hex_string_to_color_tuple Little s
     = Inr ((n div 65536) mod 256, (n div 256) mod 256, n mod 256)"
  using assms
  by (simp add: hex_string_to_color_tuple_def pack_I_unpack_4B_def Let_def)

lemma hex_out_of_range:
  assumes "py_int16 (drop 1 s) = Inr n" "n < 0 \<or> 2 ^ 32 \<le> n"
  shows "hex_string_to_color_tuple bo s = Inl StructError"
  using assms
  by (auto simp: hex_string_to_color_tuple_def pack_I_unpack_4B_def Let_def)

lemma hex_examples:
  "hex_string_to_color_tuple Little ''#000000'' = Inr (0, 0, 0)"
  "hex_string_to_color_tuple Little ''#ff00ff'' = Inr (255, 0, 255)"
  "hex_string_to_color_tuple Little ''#aa7700'' = Inr (170, 119, 0)"
  by (simp_all add: hex_literal hex_digit_def)

lemma hex_examples_big:
  "hex_string_to_color_tuple Big ''#000000'' = Inr (0, 0, 0)"
  "hex_string_to_color_tuple Big ''#ff00ff'' = Inr (0, 255, 0)"
  "hex_string_to_color_tuple Big ''#aa7700'' = Inr (119, 170, 0)"
  by (simp_all add: hex_literal hex_digit_def)

lemma py_int16_examples:
  "py_int16 ''0x10'' = Inr 16" "py_int16 ''-1'' = Inr (- 1)" "py_int16 '' +0X1f_F '' = Inr 511"
  "py_int16 ''12345678'' = Inr 305419896" "py_int16 ''1__2'' = Inl ValueError"
  "py_int16 '''' = Inl ValueError" "py_int16 ''0x'' = Inl ValueError"
  "py_int16 ''1 2'' = Inl ValueError" "py_int16 ''zz'' = Inl ValueError"
  by (simp_all add: py_int16_def skip_sign_def skip_prefix_def py_isspace_def hex_digit_def)

text \<open>
  Claim C7. The four bytes are taken in the byte order of the host, and the source reads
  them as blue, green, red and a discarded byte. On a big-endian host the first byte is
  the high byte of the number, so \<open>#ff00ff\<close> comes out as (0, 255, 0) and \<open>#aa7700\<close> as
  (119, 170, 0), not as (255, 0, 255) and (170, 119, 0); the same strings on a
  little-endian host give the triples of the specification.
\<close>

theorem hex_string_to_color_tuple_native_order:
  "hex_string_to_color_tuple Big ''#ff00ff'' = Inr (0, 255, 0) \<and>
   hex_string_to_color_tuple Big ''#aa7700'' = Inr (119, 170, 0) \<and>
   hex_string_to_color_tuple Big ''#000000'' = Inr (0, 0, 0) \<and>
   hex_string_to_color_tuple Little ''#ff00ff'' = Inr (255, 0, 255) \<and>
   hex_string_to_color_tuple Little ''#aa7700'' = Inr (170, 119, 0) \<and>
   hex_string_to_color_tuple Little ''#000000'' = Inr (0, 0, 0)"
  by (simp add: hex_literal hex_digit_def)

text \<open>
  On a little-endian host, \<open>hex_string_to_color_tuple\<close> turns \<open>#RRGGBB\<close> into the triple
  (R, G, B) in that order: six hexadecimal digits give the three bytes they spell; for any
  string that \<^verbatim>\<open>int(s, 16)\<close> reads as a number in \<open>0 .. 2^32 - 1\<close> the result is made of
  the three low bytes of the number, so that the fourth byte is dropped; a number outside
  that range raises \<^verbatim>\<open>struct.error\<close> on every host.
\<close>

theorem hex_string_to_color_tuple_little_endian:
  "(hex_digit r1 = Some a1 \<and> hex_digit r2 = Some a2 \<and> hex_digit g1 = Some a3 \<and>
    hex_digit g2 = Some a4 \<and> hex_digit b1 = Some a5 \<and> hex_digit b2 = Some a6 \<longrightarrow>
      hex_string_to_color_tuple Little [h, r1, r2, g1, g2, b1, b2]
        = Inr (16 * a1 + a2, 16 * a3 + a4, 16 * a5 + a6)) \<and>
   (py_int16 (drop 1 s) = Inr n \<and> 0 \<le> n \<and> n < 2 ^ 32 \<longrightarrow>
      hex_string_to_color_tuple Little s
        = Inr ((n div 65536) mod 256, (n div 256) mod 256, n mod 256)) \<and>
   (py_int16 (drop 1 s) = Inr n \<and> (n < 0 \<or> 2 ^ 32 \<le> n) \<longrightarrow>
      hex_string_to_color_tuple bo s = Inl StructError)"
  using hex_six_digits(1)[of r1 a1 r2 a2 g1 a3 g2 a4 b1 a5 b2 a6 h]
    hex_low_three_bytes[of s n] hex_out_of_range[of s n bo]
  by blast

theorem hex_string_to_color_tuple_little_endian_witness:
  "hex_digit (CHR ''8'') = Some 8 \<and> hex_digit (CHR ''0'') = Some 0 \<and>
   hex_digit (CHR ''c'') = Some 12 \<and> hex_digit (CHR ''F'') = Some 15 \<and>
   hex_string_to_color_tuple Little ''#80c0FF'' = Inr (128, 192, 255) \<and>
   py_int16 (drop 1 ''#12345678'') = Inr 305419896 \<and>
   hex_string_to_color_tuple Little ''#12345678'' = Inr (52, 86, 120) \<and>
   py_int16 (drop 1 ''#0x10'') = Inr 16 \<and>
   hex_string_to_color_tuple Little ''#0x10'' = Inr (0, 0, 16) \<and>
   py_int16 (drop 1 ''#-1'') = Inr (- 1) \<and>
   hex_string_to_color_tuple Little ''#-1'' = Inl StructError"
proof -
  have d: "hex_digit (CHR ''8'') = Some 8" "hex_digit (CHR ''0'') = Some 0"
    "hex_digit (CHR ''c'') = Some 12" "hex_digit (CHR ''F'') = Some 15"
    by (simp_all add: hex_digit_def)
  have n: "py_int16 (drop 1 ''#12345678'') = Inr 305419896"
    "py_int16 (drop 1 ''#0x10'') = Inr 16" "py_int16 (drop 1 ''#-1'') = Inr (- 1)"
    using py_int16_examples by simp_all
  note t = hex_string_to_color_tuple_little_endian[of "CHR ''8''" 8 "CHR ''0''" 0 "CHR ''c''" 12
      "CHR ''0''" 0 "CHR ''F''" 15 "CHR ''F''" 15 "CHR ''#''"]
  from t[of "''#12345678''" 305419896 Little] d
  have 1: "hex_string_to_color_tuple Little ''#80c0FF'' = Inr (128, 192, 255)"
    by simp
  from t[of "''#12345678''" 305419896 Little] n(1)
  have 2: "hex_string_to_color_tuple Little ''#12345678'' = Inr (52, 86, 120)"
    by simp
  from t[of "''#0x10''" 16 Little] n(2)
  have 3: "hex_string_to_color_tuple Little ''#0x10'' = Inr (0, 0, 16)"
    by simp
  from t[of "''#-1''" "- 1" Little] n(3)
  have 4: "hex_string_to_color_tuple Little ''#-1'' = Inl StructError"
    by simp
  from 1 2 3 4 d n show ?thesis by simp
qed

section \<open>Character codes\<close>

lemma py_ord_codes:
  "py_ord (CHR '' '') = 32" "py_ord (CHR 0x60) = 96" "py_ord (CHR ''0'') = 48"
  by (simp_all add: py_ord_def)

lemma represent_char_range: "0 \<le> c \<Longrightarrow> c \<le> 255 \<Longrightarrow> 0 \<le> represent_char c \<and> represent_char c \<le> 255"
  by (simp add: represent_char_def py_ord_codes)

text \<open>
  Claim C8. \<open>represent_char\<close> sends 0 to the code of the space, the code of the backtick
  to the code of the digit \<open>0\<close>, and every other code (in \<open>0 .. 255\<close> or not) to itself.
\<close>

theorem represent_char_remap:
  "represent_char 0 = py_ord (CHR '' '') \<and> py_ord (CHR '' '') = 32 \<and>
   represent_char (py_ord (CHR 0x60)) = py_ord (CHR ''0'') \<and>
   py_ord (CHR 0x60) = 96 \<and> py_ord (CHR ''0'') = 48 \<and>
   (\<forall>c. c \<noteq> 0 \<and> c \<noteq> py_ord (CHR 0x60) \<longrightarrow> represent_char c = c)"
  by (simp add: represent_char_def py_ord_codes)

theorem represent_char_remap_witness:
  "represent_char 0 = 32 \<and> represent_char 96 = 48 \<and> represent_char 65 = 65 \<and>
   represent_char 255 = 255"
proof -
  note t = represent_char_remap
  from t have c: "py_ord (CHR 0x60) = 96" "py_ord (CHR ''0'') = 48" "py_ord (CHR '' '') = 32"
    by blast+
  from t have "represent_char 0 = py_ord (CHR '' '')"
    and "represent_char (py_ord (CHR 0x60)) = py_ord (CHR ''0'')"
    and "\<forall>c. c \<noteq> 0 \<and> c \<noteq> py_ord (CHR 0x60) \<longrightarrow> represent_char c = c"
    by blast+
  then show ?thesis unfolding c by simp
qed

section \<open>The tables a renderer is built with\<close>

lemma map_colors_length: "map_colors bo hs = Inr cs \<Longrightarrow> length cs = length hs"
  by (induction hs arbitrary: cs) (auto split: sum.splits)

lemma map_bgcolors_keys: "map_bgcolors bo kvs = Inr cs \<Longrightarrow> map fst cs = map fst kvs"
  by (induction bo kvs arbitrary: cs rule: map_bgcolors.induct) (auto split: sum.splits)

lemma map_bgcolors_lookup:
  "map_bgcolors bo kvs = Inr cs \<Longrightarrow> map_of cs k = Some c \<Longrightarrow>
    \<exists>h. map_of kvs k = Some h \<and> hex_string_to_color_tuple bo h = Inr c"
  by (induction bo kvs arbitrary: cs rule: map_bgcolors.induct)
    (auto split: sum.splits if_splits)

lemma map_colors_ok: "\<exists>cm. map_colors bo FOREGROUND_COLORS = Inr cm"
  by (cases bo) (simp_all add: FOREGROUND_COLORS_def hex_literal hex_digit_def)

lemma map_bgcolors_ok: "\<exists>bgc. map_bgcolors bo BACKGROUND_COLORS = Inr bgc"
  by (cases bo) (simp_all add: BACKGROUND_COLORS_def hex_literal hex_digit_def)

lemma map_bgcolors_Little:
  "map_bgcolors Little BACKGROUND_COLORS =
    Inr [(''cursor'', 85, 85, 85), (''corpse'', 0, 0, 170), (''invis'', 51, 51, 51),
         (''detect'', 51, 51, 51), (''pet'', 255, 255, 255), (''ridden'', 51, 51, 51),
         (''statue'', 51, 51, 51), (''objpile'', 51, 51, 51), (''bwlava'', 51, 0, 0),
         (''default'', 0, 0, 0)]"
  by (simp add: BACKGROUND_COLORS_def hex_literal hex_digit_def)

lemma situation_names:
  "get_special_background m s \<in> set (map fst BACKGROUND_COLORS)"
  by (simp add: get_special_background_def BACKGROUND_COLORS_def)

lemma get_special_background_first_match:
  "get_special_background m s = resolveSpecial m s"
  by (simp add: get_special_background_def resolveSpecial_def priority_list_def)

lemma fill_specials_map_result:
  assumes keys: "\<And>s. map_of bgc (get_special_background m s) \<noteq> None"
  shows "\<exists>t'. fill_specials_map m bgc ss t = Inr t' \<and> length t' = length t \<and>
          (\<forall>i<length t. t' ! i =
             (if i \<in> set ss then the (map_of bgc (get_special_background m (int i))) else t ! i))"
proof (induction ss arbitrary: t)
  case Nil
  then show ?case by simp
next
  case (Cons s ss)
  from keys obtain c where c: "map_of bgc (get_special_background m (int s)) = Some c"
    by blast
  from Cons.IH[of "t[s := c]"] obtain t' where
    t': "fill_specials_map m bgc ss (t[s := c]) = Inr t'" "length t' = length t"
      "\<forall>i<length t. t' ! i =
        (if i \<in> set ss then the (map_of bgc (get_special_background m (int i))) else t[s := c] ! i)"
    by auto
  have "\<forall>i<length t. t' ! i =
        (if i \<in> set (s # ss) then the (map_of bgc (get_special_background m (int i))) else t ! i)"
    using t'(3) c by (auto simp: nth_list_update)
  with t'(1,2) c show ?case by simp
qed

lemma init_result:
  "\<exists>cm bgc sm. init bo m fnt = Inr \<lparr>font = fnt, colors_map = cm, bgcolors = bgc, specials_map = sm\<rparr>
     \<and> map_colors bo FOREGROUND_COLORS = Inr cm
     \<and> map_bgcolors bo BACKGROUND_COLORS = Inr bgc
     \<and> length cm = 16 \<and> length sm = 256
     \<and> (\<forall>s<256. map_of bgc (get_special_background m (int s)) = Some (sm ! s))"
proof -
  obtain cm where cm: "map_colors bo FOREGROUND_COLORS = Inr cm"
    using map_colors_ok by blast
  obtain bgc where bgc: "map_bgcolors bo BACKGROUND_COLORS = Inr bgc"
    using map_bgcolors_ok by blast
  have keys: "map_of bgc (get_special_background m s) \<noteq> None" for s
    using situation_names[of m s] map_bgcolors_keys[OF bgc]
    by (metis map_of_eq_None_iff set_map)
  from fill_specials_map_result[of bgc m "[0..<256]" "replicate 256 (0, 0, 0)"] keys
  obtain sm where sm: "fill_specials_map m bgc [0..<256] (replicate 256 (0, 0, 0)) = Inr sm"
      "length sm = 256"
      "\<forall>i<256. sm ! i = the (map_of bgc (get_special_background m (int i)))"
    by auto
  have "\<forall>s<256. map_of bgc (get_special_background m (int s)) = Some (sm ! s)"
    using sm(3) keys by auto
  moreover have "length cm = 16"
    using map_colors_length[OF cm] by (simp add: FOREGROUND_COLORS_def)
  ultimately show ?thesis
    using cm bgc sm(1,2) by (simp add: init_def)
qed

text \<open>
  Claim C1. \<open>get_special_background\<close> returns the situation of the first pair of the
  priority list (corpse, invis, detect, pet, ridden, statue, objpile, bwlava) whose mask
  meets the bitfield, and \<open>default\<close> when none does, whatever the masks are. The
  constructor succeeds, and for every \<open>s\<close> in \<open>0 .. 255\<close> entry \<open>s\<close> of its table of 256
  rows is the colour of that situation: the entry of \<open>_bgcolors\<close>, which is the converted
  hexadecimal string of \<open>BACKGROUND_COLORS\<close>.
\<close>

theorem get_special_background_priority:
  "get_special_background m s = resolveSpecial m s \<and>
   (\<exists>self. init bo m fnt = Inr self \<and> length (specials_map self) = 256 \<and>
      (0 \<le> s \<and> s < 256 \<longrightarrow>
         map_of (bgcolors self) (resolveSpecial m s) = Some (specials_map self ! nat s) \<and>
         (\<exists>hex. map_of BACKGROUND_COLORS (resolveSpecial m s) = Some hex \<and>
            hex_string_to_color_tuple bo hex = Inr (specials_map self ! nat s))))"
proof -
  from init_result[of bo m fnt] obtain cm bgc sm where
    i: "init bo m fnt = Inr \<lparr>font = fnt, colors_map = cm, bgcolors = bgc, specials_map = sm\<rparr>"
    and bgc: "map_bgcolors bo BACKGROUND_COLORS = Inr bgc"
    and len: "length sm = 256"
    and tbl: "\<forall>s<256. map_of bgc (get_special_background m (int s)) = Some (sm ! s)"
    by blast
  have "map_of bgc (resolveSpecial m s) = Some (sm ! nat s) \<and>
        (\<exists>hex. map_of BACKGROUND_COLORS (resolveSpecial m s) = Some hex \<and>
            hex_string_to_color_tuple bo hex = Inr (sm ! nat s))"
    if s: "0 \<le> s" "s < 256"
  proof -
    from s have "nat s < 256" "int (nat s) = s" by simp_all
    with tbl have "map_of bgc (get_special_background m s) = Some (sm ! nat s)"
      by metis
    then have e: "map_of bgc (resolveSpecial m s) = Some (sm ! nat s)"
      by (simp add: get_special_background_first_match)
    with map_bgcolors_lookup[OF bgc e] show ?thesis by simp
  qed
  with i len show ?thesis
    by (auto simp: get_special_background_first_match)
qed

theorem get_special_background_priority_witness:
  "get_special_background nle_flags 9 = ''corpse'' \<and>
   resolveSpecial nle_flags 9 = ''corpse'' \<and>
   (\<exists>self. init Little nle_flags blank_font = Inr self \<and>
      length (specials_map self) = 256 \<and> specials_map self ! 9 = (0, 0, 170))"
proof -
  have r: "resolveSpecial nle_flags 9 = ''corpse''"
    by (simp add: resolveSpecial_def priority_list_def nle_flags_def)
  have h: "map_of BACKGROUND_COLORS ''corpse'' = Some hex \<Longrightarrow>
      hex_string_to_color_tuple Little hex = Inr (0, 0, 170)" for hex
    by (auto simp: BACKGROUND_COLORS_def hex_literal hex_digit_def)
  from get_special_background_priority[of nle_flags 9 Little blank_font] r h
  show ?thesis by auto
qed

section \<open>Arrays\<close>

lemma has_shape_nth: "has_shape h w g \<Longrightarrow> y < h \<Longrightarrow> length (g ! y) = w"
  by (auto simp: has_shape_def list_all_length)

lemma has_shape_covers: "has_shape h w g \<Longrightarrow> covers h w g"
  by (auto simp: has_shape_def covers_def list_all_length)

lemma covers_nth: "covers h w g \<Longrightarrow> y < h \<Longrightarrow> y < length g \<and> w \<le> length (g ! y)"
  by (auto simp: covers_def list_all_length)

lemma covers_ncols: "covers h w g \<Longrightarrow> 0 < h \<Longrightarrow> w \<le> ncols g"
  by (cases g) (auto simp: covers_def ncols_def)

lemma has_shape_ncols: "has_shape h w g \<Longrightarrow> 0 < h \<Longrightarrow> ncols g = w"
  by (cases g) (auto simp: has_shape_def ncols_def)

lemma np_clip_length [simp]: "length (np_clip lo hi a) = length a"
  by (simp add: np_clip_def)

lemma np_clip_row_length [simp]: "y < length a \<Longrightarrow> length (np_clip lo hi a ! y) = length (a ! y)"
  by (simp add: np_clip_def)

lemma np_clip_nth:
  "y < length a \<Longrightarrow> x < length (a ! y) \<Longrightarrow> np_clip lo hi a ! y ! x = min hi (max (a ! y ! x) lo)"
  by (simp add: np_clip_def)

lemma np_clip_range:
  "lo \<le> hi \<Longrightarrow> r \<in> set (np_clip lo hi a) \<Longrightarrow> v \<in> set r \<Longrightarrow> lo \<le> v \<and> v \<le> hi"
  by (auto simp: np_clip_def)

lemma np_clip_has_shape: "has_shape h w a \<Longrightarrow> has_shape h w (np_clip lo hi a)"
  by (auto simp: has_shape_def np_clip_def list_all_length)

lemma np_clip_covers: "covers h w a \<Longrightarrow> covers h w (np_clip lo hi a)"
  by (auto simp: covers_def np_clip_def list_all_length)

lemma take_row_in_range:
  "\<forall>v\<in>set vs. 0 \<le> v \<and> v < int (length table) \<Longrightarrow>
    take_row table vs = Inr (map (\<lambda>v. table ! nat v) vs)"
  by (induction vs) (auto simp: np_index_def)

lemma np_take_in_range:
  "\<forall>r\<in>set a. \<forall>v\<in>set r. 0 \<le> v \<and> v < int (length table) \<Longrightarrow>
    np_take table a = Inr (map (map (\<lambda>v. table ! nat v)) a)"
  by (induction a) (auto simp: take_row_in_range)

lemma np_take_clip:
  assumes "int (length table) = hi + 1" "0 \<le> hi"
  shows "np_take table (np_clip 0 hi a) = Inr (map (map (\<lambda>v. table ! nat v)) (np_clip 0 hi a))"
proof (rule np_take_in_range, intro ballI)
  fix r v assume "r \<in> set (np_clip 0 hi a)" "v \<in> set r"
  from np_clip_range[OF assms(2) this] assms(1)
  show "0 \<le> v \<and> v < int (length table)" by simp
qed

lemma map_map_has_shape: "has_shape h w a \<Longrightarrow> has_shape h w (map (map f) a)"
  by (auto simp: has_shape_def list_all_length)

lemma map_map_covers: "covers h w a \<Longrightarrow> covers h w (map (map f) a)"
  by (auto simp: covers_def list_all_length)

lemma map_map_nth: "y < length a \<Longrightarrow> x < length (a ! y) \<Longrightarrow> map (map f) a ! y ! x = f (a ! y ! x)"
  by simp

lemma getitem2_covers: "covers h w a \<Longrightarrow> y < h \<Longrightarrow> x < w \<Longrightarrow> getitem2 a y x = Inr (a ! y ! x)"
  by (auto simp: getitem2_def dest: covers_nth)

lemma np_pad_specials_shape:
  assumes "has_shape h w sp" "0 < h"
  shows "has_shape (h + 3) (w + 1) (np_pad 1 2 0 1 sp)"
proof -
  have n: "ncols sp = w" using assms by (rule has_shape_ncols)
  show ?thesis
    using assms(1) unfolding np_pad_def Let_def n
    by (auto simp: has_shape_def list_all_iff)
qed

lemma np_pad_specials_nth:
  assumes "has_shape h w sp" "0 < h" "y < h + 3" "x < w + 1"
  shows "np_pad 1 2 0 1 sp ! y ! x = (if 1 \<le> y \<and> y \<le> h \<and> x < w then sp ! (y - 1) ! x else 0)"
proof -
  have n: "ncols sp = w" using assms(1,2) by (rule has_shape_ncols)
  have len: "length sp = h" using assms(1) by (simp add: has_shape_def)
  have row: "length (sp ! (y - 1)) = w" if "1 \<le> y" "y \<le> h"
    using has_shape_nth[OF assms(1), of "y - 1"] that by simp
  show ?thesis
  proof (cases "y = 0")
    case True
    with assms show ?thesis by (simp add: np_pad_def Let_def n nth_Cons')
  next
    case False
    show ?thesis
    proof (cases "y \<le> h")
      case True
      with False row have r: "length (sp ! (y - 1)) = w" by simp
      from True False have "np_pad 1 2 0 1 sp ! y = sp ! (y - 1) @ [0]"
        by (simp add: np_pad_def Let_def n len nth_append nth_Cons split: nat.splits)
      with True False r assms(4) show ?thesis by (auto simp: nth_append)
    next
      case F2: False
      with assms(3) have "y = h + 1 \<or> y = h + 2" by arith
      then have "np_pad 1 2 0 1 sp ! y = replicate (w + 1) 0"
        by (auto simp: np_pad_def Let_def n len nth_append nth_Cons split: nat.splits)
      with F2 False assms(4) show ?thesis by (simp add: nth_Cons')
    qed
  qed
qed

lemma concat_nth_blocks:
  "\<forall>l\<in>set xss. length l = n \<Longrightarrow> r < length xss \<Longrightarrow> i < n \<Longrightarrow>
    concat xss ! (r * n + i) = xss ! r ! i"
proof (induction xss arbitrary: r)
  case Nil
  then show ?case by simp
next
  case (Cons l xss)
  show ?case
  proof (cases r)
    case 0
    with Cons.prems show ?thesis by (simp add: nth_append)
  next
    case (Suc r')
    with Cons.prems have "concat xss ! (r' * n + i) = xss ! r' ! i"
      by (intro Cons.IH) auto
    with Suc Cons.prems show ?thesis by (simp add: nth_append)
  qed
qed

lemma concat_length_blocks:
  "\<forall>l\<in>set xss. length l = n \<Longrightarrow> length (concat xss) = length xss * n"
  by (induction xss) auto

lemma fixed_size_shape:
  assumes "covers 16 8 p"
  shows "has_shape 16 8 (fixed_size p)"
  using assms
  by (auto simp: covers_def has_shape_def fixed_size_def list_all_iff dest: in_set_takeD)

lemma np_hstack_tiles:
  assumes "ps \<noteq> []" "\<forall>p\<in>set ps. has_shape h w p"
  shows "np_hstack ps = Inr (map (\<lambda>i. concat (map (\<lambda>q. q ! i) ps)) [0..<h])"
  using assms by (cases ps) (auto simp: np_hstack_def has_shape_def list_all_iff)

lemma hstack_row_shape:
  assumes "\<forall>p\<in>set ps. has_shape h w p"
  shows "has_shape h (length ps * w) (map (\<lambda>i. concat (map (\<lambda>q. q ! i) ps)) [0..<h])"
proof -
  have "length (concat (map (\<lambda>q. q ! i) ps)) = length ps * w" if "i < h" for i
  proof -
    have "\<forall>l\<in>set (map (\<lambda>q. q ! i) ps). length l = w"
      using assms that by (auto simp: has_shape_nth)
    from concat_length_blocks[OF this] show ?thesis by simp
  qed
  then show ?thesis by (auto simp: has_shape_def list_all_iff)
qed

lemma hstack_row_nth:
  assumes "\<forall>p\<in>set ps. has_shape h w p" "i < h" "c < length ps" "j < w"
  shows "map (\<lambda>i. concat (map (\<lambda>q. q ! i) ps)) [0..<h] ! i ! (c * w + j) = ps ! c ! i ! j"
proof -
  have "\<forall>l\<in>set (map (\<lambda>q. q ! i) ps). length l = w"
    using assms(1,2) by (auto simp: has_shape_nth)
  from concat_nth_blocks[OF this, of c j] assms show ?thesis by simp
qed

lemma np_vstack_rows:
  assumes "rs \<noteq> []" "\<forall>r\<in>set rs. has_shape h w r" "0 < h"
  shows "np_vstack rs = Inr (concat rs)"
proof -
  have "\<forall>r\<in>set rs. ncols r = w" using assms(2,3) by (auto simp: has_shape_ncols)
  with assms(1) show ?thesis by (cases rs) (auto simp: np_vstack_def list_all_iff)
qed

lemma vstack_shape:
  assumes "\<forall>r\<in>set rs. has_shape h w r"
  shows "has_shape (length rs * h) w (concat rs)"
proof -
  have "\<forall>l\<in>set rs. length l = h" using assms by (auto simp: has_shape_def)
  from concat_length_blocks[OF this] assms show ?thesis
    by (auto simp: has_shape_def list_all_iff)
qed

lemma vstack_nth:
  assumes "\<forall>r\<in>set rs. has_shape h w r" "y < length rs" "i < h"
  shows "concat rs ! (y * h + i) = rs ! y ! i"
proof -
  have "\<forall>l\<in>set rs. length l = h" using assms(1) by (auto simp: has_shape_def)
  from concat_nth_blocks[OF this assms(2,3)] show ?thesis .
qed

section \<open>The cache of tiles\<close>

lemma cache_ok_empty: "cache_ok fnt empty_world"
  by (simp add: cache_ok_def empty_world_def)

lemma cache_okD:
  assumes "cache_ok fnt st" "TILE_CACHE st (c, fg, bg) = Some p"
  shows "p = fixed_size (fnt c fg bg)"
  by (rule assms(1)[unfolded cache_ok_def, rule_format, OF assms(2)])

lemma cache_okI:
  assumes "\<And>c fg bg p. TILE_CACHE st (c, fg, bg) = Some p \<Longrightarrow> p = fixed_size (fnt c fg bg)"
  shows "cache_ok fnt st"
  unfolding cache_ok_def by (intro allI impI) (rule assms)

lemma render_char_cache_ok:
  assumes "cache_ok (font self) st"
  shows "fst (render_char self c fg bg st) = fixed_size (font self c fg bg)"
    and "cache_ok (font self) (snd (render_char self c fg bg st))"
proof -
  show "fst (render_char self c fg bg st) = fixed_size (font self c fg bg)"
  proof (cases "TILE_CACHE st (c, fg, bg)")
    case None
    then show ?thesis by (simp add: render_char_def Let_def)
  next
    case (Some p)
    with cache_okD[OF assms Some] show ?thesis by (simp add: render_char_def Let_def)
  qed
  show "cache_ok (font self) (snd (render_char self c fg bg st))"
  proof (cases "TILE_CACHE st (c, fg, bg)")
    case None
    show ?thesis
    proof (rule cache_okI)
      fix c' fg' bg' p
      assume "TILE_CACHE (snd (render_char self c fg bg st)) (c', fg', bg') = Some p"
      with None have "(if (c', fg', bg') = (c, fg, bg) then Some (fixed_size (font self c fg bg))
          else TILE_CACHE st (c', fg', bg')) = Some p"
        by (simp add: render_char_def Let_def)
      then show "p = fixed_size (font self c' fg' bg')"
        using cache_okD[OF assms, of c' fg' bg' p] by (auto split: if_splits)
    qed
  next
    case (Some p)
    with assms show ?thesis by (simp add: render_char_def Let_def)
  qed
qed

lemma accumulated_cache_ok: "accumulated fnt st \<Longrightarrow> cache_ok fnt st"
  by (induction rule: accumulated.induct) (auto simp: cache_ok_empty render_char_cache_ok)

lemma render_char_twice:
  assumes "render_char self c fg bg st = (p1, st1)"
  shows "render_char self c fg bg st1 = (p1, st1)" and "TILE_CACHE st1 (c, fg, bg) = Some p1"
  using assms
  by (auto simp: render_char_def Let_def split: option.splits)

lemma render_pos_accumulated:
  assumes "accumulated (font self) st"
  shows "accumulated (font self) (snd (render_pos self chars fg bg x y st))"
proof -
  have "accumulated (font self) (snd (render_char self c color background st))"
    for c color background
    using assms by (rule accumulated_step) simp
  then have "accumulated (font self) st'"
    if "render_char self c color background st = (tile, st')" for c color background tile st'
    using that by (metis snd_conv)
  with assms show ?thesis
    by (simp add: render_pos_def split: sum.splits prod.splits)
qed

lemma render_char_cache_ok_ex:
  assumes "cache_ok (font self) st"
  shows "\<exists>st'. render_char self c fg bg st = (fixed_size (font self c fg bg), st')
    \<and> cache_ok (font self) st'"
  using render_char_cache_ok[OF assms, of c fg bg]
  by (cases "render_char self c fg bg st") simp

lemma render_pos_cache_ok:
  assumes "cache_ok (font self) st"
  shows "\<exists>st'. render_pos self chars fg bg x y st = (pure_pos self chars fg bg x y, st')
    \<and> cache_ok (font self) st'"
proof (cases "getitem2 chars y x")
  case (Inl e)
  with assms show ?thesis by (simp add: render_pos_def pure_pos_def)
next
  case code: (Inr code)
  show ?thesis
  proof (cases "py_chr (represent_char code)")
    case (Inl e)
    with code assms show ?thesis by (simp add: render_pos_def pure_pos_def)
  next
    case c: (Inr c)
    show ?thesis
    proof (cases "getitem2 fg y x")
      case (Inl e)
      with code c assms show ?thesis by (simp add: render_pos_def pure_pos_def)
    next
      case color: (Inr color)
      show ?thesis
      proof (cases "getitem2 bg y x")
        case (Inl e)
        with code c color assms show ?thesis by (simp add: render_pos_def pure_pos_def)
      next
        case background: (Inr background)
        from render_char_cache_ok_ex[OF assms, of c color background]
        obtain st' where "render_char self c color background st
            = (fixed_size (font self c color background), st')" "cache_ok (font self) st'"
          by blast
        with code c color background show ?thesis
          by (simp add: render_pos_def pure_pos_def)
      qed
    qed
  qed
qed

section \<open>Comprehensions\<close>

lemma comprehension_Cons_Inl:
  "f x st = (Inl e, s) \<Longrightarrow> comprehension f (x # xs) st = (Inl e, s)"
  by simp

lemma comprehension_Cons_Inr:
  "f x st = (Inr v, s) \<Longrightarrow> comprehension f (x # xs) st =
    (case comprehension f xs s of (Inl e, s') \<Rightarrow> (Inl e, s') | (Inr vs, s') \<Rightarrow> (Inr (v # vs), s'))"
  by simp

lemma comprehension_Cons_snd:
  "f x st = (Inr v, s) \<Longrightarrow> snd (comprehension f (x # xs) st) = snd (comprehension f xs s)"
  by (cases "comprehension f xs s" rule: prod.exhaust[case_product sum.exhaust])
    (simp_all split: sum.splits)

lemma comprehension_Cons_fst:
  "f x st = (Inr v, s) \<Longrightarrow> fst (comprehension f (x # xs) st) =
    (case fst (comprehension f xs s) of Inl e \<Rightarrow> Inl e | Inr vs \<Rightarrow> Inr (v # vs))"
  by (cases "comprehension f xs s") (simp split: sum.splits)

lemma comprehension_Inr:
  assumes "I st"
    and "\<And>x s. x \<in> set xs \<Longrightarrow> I s \<Longrightarrow> \<exists>s'. f x s = (Inr (g x), s') \<and> I s'"
  shows "\<exists>s'. comprehension f xs st = (Inr (map g xs), s') \<and> I s'"
  using assms
proof (induction xs arbitrary: st)
  case Nil
  then show ?case by simp
next
  case (Cons x xs)
  from Cons.prems(2)[of x st] Cons.prems(1) obtain s1 where s1: "f x st = (Inr (g x), s1)" "I s1"
    by auto
  from Cons.IH[OF s1(2)] Cons.prems(2) obtain s2 where
    s2: "comprehension f xs s1 = (Inr (map g xs), s2)" "I s2"
    by auto
  from s1(1) s2 show ?case by simp
qed

lemma comprehension_invariant:
  assumes "I st" and "\<And>x s. x \<in> set xs \<Longrightarrow> I s \<Longrightarrow> I (snd (f x s))"
  shows "I (snd (comprehension f xs st))"
  using assms
proof (induction xs arbitrary: st)
  case Nil
  then show ?case by simp
next
  case (Cons x xs)
  have 1: "I (snd (f x st))" using Cons.prems by simp
  obtain r s where fx: "f x st = (r, s)" by (cases "f x st")
  with 1 have s: "I s" by simp
  show ?case
  proof (cases r)
    case (Inl e)
    with fx have g: "f x st = (Inl e, s)" by simp
    from s show ?thesis
      by (simp only: comprehension_Cons_Inl[of f x st e s xs, OF g] snd_conv)
  next
    case (Inr v)
    with fx have g: "f x st = (Inr v, s)" by simp
    have "I (snd (comprehension f xs s))"
      using Cons.IH[OF s] Cons.prems(2) by simp
    then show ?thesis
      by (simp only: comprehension_Cons_snd[of f x st v s xs, OF g])
  qed
qed

lemma comprehension_independent:
  assumes "I s1" "I s2"
    and "\<And>x s s'. x \<in> set xs \<Longrightarrow> I s \<Longrightarrow> I s' \<Longrightarrow>
       fst (f x s) = fst (f x s') \<and> I (snd (f x s))"
  shows "fst (comprehension f xs s1) = fst (comprehension f xs s2)"
  using assms
proof (induction xs arbitrary: s1 s2)
  case Nil
  then show ?case by simp
next
  case (Cons x xs)
  obtain r1 t1 where f1: "f x s1 = (r1, t1)" by (cases "f x s1")
  obtain r2 t2 where f2: "f x s2 = (r2, t2)" by (cases "f x s2")
  from Cons.prems(3)[of x s1 s2] Cons.prems(1,2) f1 f2 have r: "r1 = r2" and i1: "I t1"
    by simp_all
  from Cons.prems(3)[of x s2 s1] Cons.prems(1,2) f2 have i2: "I t2"
    by simp
  show ?case
  proof (cases r1)
    case (Inl e)
    with f1 f2 r have g: "f x s1 = (Inl e, t1)" "f x s2 = (Inl e, t2)" by simp_all
    show ?thesis
      by (simp only: comprehension_Cons_Inl[of f x s1 e t1 xs, OF g(1)]
          comprehension_Cons_Inl[of f x s2 e t2 xs, OF g(2)] fst_conv)
  next
    case (Inr v)
    with f1 f2 r have g: "f x s1 = (Inr v, t1)" "f x s2 = (Inr v, t2)" by simp_all
    have "fst (comprehension f xs t1) = fst (comprehension f xs t2)"
    proof (rule Cons.IH[OF i1 i2])
      fix y s s'
      assume "y \<in> set xs" "I s" "I s'"
      then show "fst (f y s) = fst (f y s') \<and> I (snd (f y s))"
        using Cons.prems(3)[of y s s'] by simp
    qed
    then show ?thesis
      by (simp only: comprehension_Cons_fst[of f x s1 v t1 xs, OF g(1)]
          comprehension_Cons_fst[of f x s2 v t2 xs, OF g(2)])
  qed
qed

lemma comprehension_fails:
  assumes "x \<in> set xs" "\<And>s. \<exists>e. fst (f x s) = Inl e"
  shows "\<exists>e. fst (comprehension f xs st) = Inl e"
  using assms(1)
proof (induction xs arbitrary: st)
  case Nil
  then show ?case by simp
next
  case (Cons a xs)
  obtain r s where fa: "f a st = (r, s)" by (cases "f a st")
  show ?case
  proof (cases r)
    case (Inl e)
    with fa have g: "f a st = (Inl e, s)" by simp
    show ?thesis
      by (simp only: comprehension_Cons_Inl[of f a st e s xs, OF g] fst_conv) blast
  next
    case (Inr v)
    with fa have g: "f a st = (Inr v, s)" by simp
    have "a \<noteq> x"
    proof
      assume "a = x"
      with assms(2)[of st] fa Inr show False by simp
    qed
    with Cons.prems have "x \<in> set xs" by simp
    from Cons.IH[OF this, of s] obtain e where "fst (comprehension f xs s) = Inl e" by blast
    then show ?thesis
      by (simp only: comprehension_Cons_fst[of f a st v s xs, OF g] sum.case) blast
  qed
qed

lemma comprehension_cong:
  assumes "\<And>x. x \<in> set xs \<Longrightarrow> f x = g x"
  shows "comprehension f xs st = comprehension g xs st"
  using assms
proof (induction xs arbitrary: st)
  case Nil
  show ?case by simp
next
  case (Cons x xs)
  have h: "f x = g x" using Cons.prems by simp
  have t: "comprehension f xs s = comprehension g xs s" for s
    using Cons.IH Cons.prems by simp
  show ?case by (simp only: comprehension.simps h t)
qed

section \<open>Stacking the tiles\<close>

lemma py_chr_represent_char:
  "0 \<le> c \<Longrightarrow> c \<le> 255 \<Longrightarrow> py_chr (represent_char c) = Inr (represent_char c)"
  using represent_char_range[of c] by (simp add: py_chr_def)

lemma pure_pos_glyph:
  assumes "covers 24 80 tc" "covers 24 80 fg" "covers 24 80 bg" "y < 24" "x < 80"
  shows "pure_pos self (np_clip 0 255 tc) fg bg x y = Inr (glyph self (np_clip 0 255 tc) fg bg y x)"
proof -
  let ?chars = "np_clip 0 255 tc"
  from covers_nth[OF assms(1,4)] assms(5) have b: "y < length tc" "x < length (tc ! y)" by auto
  have c: "getitem2 ?chars y x = Inr (?chars ! y ! x)"
    using np_clip_covers[OF assms(1)] assms(4,5) by (rule getitem2_covers)
  have v: "?chars ! y ! x = min 255 (max (tc ! y ! x) 0)"
    using b by (rule np_clip_nth)
  have r: "0 \<le> ?chars ! y ! x" "?chars ! y ! x \<le> 255" unfolding v by simp_all
  note p = py_chr_represent_char[OF r]
  note f = getitem2_covers[OF assms(2,4,5)]
  note g = getitem2_covers[OF assms(3,4,5)]
  show ?thesis
    by (simp only: pure_pos_def glyph_def c p f g sum.case)
qed

lemma glyph_shape:
  assumes "\<And>c f b. covers 16 8 (font self c f b)"
  shows "has_shape 16 8 (glyph self chars fg bg y x)"
  unfolding glyph_def by (rule fixed_size_shape) (rule assms)

lemma render_row_ok:
  assumes big: "\<And>c f b. covers 16 8 (font self c f b)"
    and cov: "covers 24 80 tc" "covers 24 80 fg" "covers 24 80 bg" and y: "y < 24"
    and ok: "cache_ok (font self) st"
  shows "\<exists>st'. render_row self (np_clip 0 255 tc) fg bg y st
      = (Inr (tile_row self (np_clip 0 255 tc) fg bg y), st') \<and> cache_ok (font self) st'"
proof -
  let ?chars = "np_clip 0 255 tc"
  let ?g = "\<lambda>x. glyph self ?chars fg bg y x"
  have step: "\<exists>s'. render_pos self ?chars fg bg x y s = (Inr (?g x), s') \<and> cache_ok (font self) s'"
    if "x \<in> set [0..<80]" "cache_ok (font self) s" for x s
  proof -
    from that(1) have x: "x < 80" by simp
    from render_pos_cache_ok[OF that(2), of ?chars fg bg x y]
    show ?thesis by (simp only: pure_pos_glyph[OF cov y x])
  qed
  from comprehension_Inr[of "cache_ok (font self)" st "[0..<80]"
      "\<lambda>x. render_pos self ?chars fg bg x y" ?g, OF ok step]
  obtain st' where c: "comprehension (\<lambda>x. render_pos self ?chars fg bg x y) [0..<80] st
      = (Inr (map ?g [0..<80]), st')" and ok': "cache_ok (font self) st'"
    by blast
  have sh: "\<forall>p\<in>set (map ?g [0..<80]). has_shape 16 8 p"
    using glyph_shape[of self, OF big] by simp
  have ne: "map ?g [0..<80] \<noteq> []" by simp
  have h: "np_hstack (map ?g [0..<80]) = Inr (tile_row self ?chars fg bg y)"
    unfolding np_hstack_tiles[OF ne sh] tile_row_def by (simp add: o_def)
  from c h ok' show ?thesis by (simp add: render_row_def)
qed

lemma tile_row_shape:
  assumes "\<And>c f b. covers 16 8 (font self c f b)"
  shows "has_shape 16 640 (tile_row self chars fg bg y)"
proof -
  let ?ps = "map (\<lambda>x. glyph self chars fg bg y x) [0..<80]"
  have sh: "\<forall>p\<in>set ?ps. has_shape 16 8 p"
    using glyph_shape[of self, OF assms] by simp
  from hstack_row_shape[OF sh] show ?thesis
    by (simp add: tile_row_def o_def)
qed

lemma tile_row_nth:
  assumes "\<And>c f b. covers 16 8 (font self c f b)" "i < 16" "c < 80" "j < 8"
  shows "tile_row self chars fg bg y ! i ! (c * 8 + j) = glyph self chars fg bg y c ! i ! j"
proof -
  let ?ps = "map (\<lambda>x. glyph self chars fg bg y x) [0..<80]"
  have sh: "\<forall>p\<in>set ?ps. has_shape 16 8 p"
    using glyph_shape[of self, OF assms(1)] by simp
  from hstack_row_nth[OF sh assms(2), of c j] assms(3,4) show ?thesis
    by (simp add: tile_row_def o_def)
qed

lemma stack_tiles_ok:
  assumes big: "\<And>c f b. covers 16 8 (font self c f b)"
    and cov: "covers 24 80 tc" "covers 24 80 fg" "covers 24 80 bg"
    and ok: "cache_ok (font self) st"
  shows "\<exists>st'. stack_tiles self (np_clip 0 255 tc) fg bg st
      = (Inr (tiled_image self (np_clip 0 255 tc) fg bg), st') \<and> cache_ok (font self) st'"
proof -
  let ?chars = "np_clip 0 255 tc"
  let ?g = "tile_row self ?chars fg bg"
  have step: "\<exists>s'. render_row self ?chars fg bg y s = (Inr (?g y), s') \<and> cache_ok (font self) s'"
    if "y \<in> set [0..<24]" "cache_ok (font self) s" for y s
  proof -
    from that(1) have y: "y < 24" by simp
    from render_row_ok[of self, OF big cov y that(2)] show ?thesis .
  qed
  from comprehension_Inr[of "cache_ok (font self)" st "[0..<24]"
      "render_row self ?chars fg bg" ?g, OF ok step]
  obtain st' where c: "comprehension (render_row self ?chars fg bg) [0..<24] st
      = (Inr (map ?g [0..<24]), st')" and ok': "cache_ok (font self) st'"
    by blast
  have sh: "\<forall>r\<in>set (map ?g [0..<24]). has_shape 16 640 r"
    using tile_row_shape[of self, OF big] by simp
  have ne: "map ?g [0..<24] \<noteq> []" by simp
  have v: "np_vstack (map ?g [0..<24]) = Inr (tiled_image self ?chars fg bg)"
    unfolding np_vstack_rows[OF ne sh, simplified] tiled_image_def ..
  from c v ok' show ?thesis by (simp add: stack_tiles_def)
qed

lemma tiled_image_shape:
  assumes "\<And>c f b. covers 16 8 (font self c f b)"
  shows "has_shape 384 640 (tiled_image self chars fg bg)"
proof -
  have sh: "\<forall>r\<in>set (map (tile_row self chars fg bg) [0..<24]). has_shape 16 640 r"
    using tile_row_shape[of self, OF assms] by simp
  from vstack_shape[OF sh] show ?thesis by (simp add: tiled_image_def)
qed

lemma tiled_image_nth:
  assumes "\<And>c f b. covers 16 8 (font self c f b)" "r < 24" "c < 80" "i < 16" "j < 8"
  shows "tiled_image self chars fg bg ! (r * 16 + i) ! (c * 8 + j)
    = glyph self chars fg bg r c ! i ! j"
proof -
  have sh: "\<forall>r\<in>set (map (tile_row self chars fg bg) [0..<24]). has_shape 16 640 r"
    using tile_row_shape[of self, OF assms(1)] by simp
  from vstack_nth[OF sh, of r i] assms(2,4)
  have "tiled_image self chars fg bg ! (r * 16 + i) = tile_row self chars fg bg r ! i"
    by (simp add: tiled_image_def)
  with tile_row_nth[of self, OF assms(1,4,3,5)] show ?thesis by simp
qed

section \<open>Foreground and background colours\<close>

lemma init_facts:
  assumes "init bo m fnt = Inr self"
  shows "font self = fnt" and "length (colors_map self) = 16"
    and "length (specials_map self) = 256"
    and "map_bgcolors bo BACKGROUND_COLORS = Inr (bgcolors self)"
    and "\<exists>c. map_of (bgcolors self) ''cursor'' = Some c"
    and "map_of (bgcolors self) ''default'' = Some (specials_map self ! 0)"
proof -
  from init_result[of bo m fnt] assms obtain cm bgc sm where
    self: "self = \<lparr>font = fnt, colors_map = cm, bgcolors = bgc, specials_map = sm\<rparr>"
    and bgc: "map_bgcolors bo BACKGROUND_COLORS = Inr bgc"
    and len: "length cm = 16" "length sm = 256"
    and tbl: "\<forall>s<256. map_of bgc (get_special_background m (int s)) = Some (sm ! s)"
    by auto
  show "font self = fnt" "length (colors_map self) = 16" "length (specials_map self) = 256"
    "map_bgcolors bo BACKGROUND_COLORS = Inr (bgcolors self)"
    using self bgc len by simp_all
  have "''cursor'' \<in> set (map fst bgc)"
    unfolding map_bgcolors_keys[OF bgc] by (simp add: BACKGROUND_COLORS_def)
  then have "map_of bgc ''cursor'' \<noteq> None"
    by (metis map_of_eq_None_iff set_map)
  then show "\<exists>c. map_of (bgcolors self) ''cursor'' = Some c"
    using self by auto
  have "get_special_background m (int 0) = ''default''"
    by (simp add: get_special_background_def)
  with tbl have "map_of bgc ''default'' = Some (sm ! 0)"
    by (metis zero_less_numeral)
  then show "map_of (bgcolors self) ''default'' = Some (specials_map self ! 0)"
    using self by simp
qed

lemma init_Little_colors:
  assumes "init Little m fnt = Inr self"
  shows "map_of (bgcolors self) ''cursor'' = Some (85, 85, 85)"
    and "map_of (bgcolors self) ''default'' = Some (0, 0, 0)"
    and "specials_map self ! 0 = (0, 0, 0)"
proof -
  from init_facts(4)[OF assms] map_bgcolors_Little
  have b: "bgcolors self = [(''cursor'', 85, 85, 85), (''corpse'', 0, 0, 170),
         (''invis'', 51, 51, 51), (''detect'', 51, 51, 51), (''pet'', 255, 255, 255),
         (''ridden'', 51, 51, 51), (''statue'', 51, 51, 51), (''objpile'', 51, 51, 51),
         (''bwlava'', 51, 0, 0), (''default'', 0, 0, 0)]"
    by simp
  show "map_of (bgcolors self) ''cursor'' = Some (85, 85, 85)"
    and d: "map_of (bgcolors self) ''default'' = Some (0, 0, 0)"
    unfolding b by simp_all
  from init_facts(6)[OF assms] d show "specials_map self ! 0 = (0, 0, 0)" by simp
qed

lemma setitem2_in_range:
  assumes "0 \<le> y" "nat y < length a" "0 \<le> x" "nat x < ncols a"
  shows "setitem2 a y x v = Inr (a[nat y := (a ! nat y)[nat x := v]])"
proof -
  from assms have "y < int (length a)" "x < int (ncols a)"
    by (simp_all add: nat_less_iff)
  with assms(1,3) show ?thesis by (simp add: setitem2_def np_index_def)
qed

lemma update_cell_row_length:
  "r < length a \<Longrightarrow> length (a[r0 := (a ! r0)[c0 := v]] ! r) = length (a ! r)"
  by (cases "r = r0") simp_all

lemma update_cell_has_shape:
  "has_shape h w a \<Longrightarrow> has_shape h w (a[r := (a ! r)[c := v]])"
  by (simp add: has_shape_def list_all_length update_cell_row_length)

lemma update_cell_covers:
  "covers h w a \<Longrightarrow> covers h w (a[r := (a ! r)[c := v]])"
  by (simp add: covers_def list_all_length update_cell_row_length)

lemma update_cell_nth:
  assumes "r < length a" "c < length (a ! r)"
  shows "a[r0 := (a ! r0)[c0 := v]] ! r ! c = (if r = r0 \<and> c = c0 then v else a ! r ! c)"
  using assms by (cases "r = r0") simp_all

lemma render_foreground_override: "render_foreground self obs (Some fg) = Inr fg"
  by (simp add: render_foreground_def)

lemma render_foreground_colors:
  assumes "length (colors_map self) = 16" "tty_colors obs = Some tc"
  shows "render_foreground self obs None =
    Inr (map (map (\<lambda>v. colors_map self ! nat v)) (np_clip 0 15 tc))"
  using assms np_take_clip[of "colors_map self" 15 tc]
  by (simp add: render_foreground_def)

lemma derive_background_specials:
  assumes "length (specials_map self) = 256" "specials obs = Some sp"
  shows "derive_background self obs =
    Inr (map (map (\<lambda>v. specials_map self ! nat v)) (np_clip 0 255 (np_pad 1 2 0 1 sp)))"
  using assms np_take_clip[of "specials_map self" 255 "np_pad 1 2 0 1 sp"]
  by (simp add: derive_background_def)

lemma derive_background_tty:
  assumes "length (colors_map self) = 16" "specials obs = None" "tty_background obs = Some tb"
  shows "derive_background self obs =
    Inr (map (map (\<lambda>v. colors_map self ! nat v)) (np_clip 0 15 tb))"
  using assms np_take_clip[of "colors_map self" 15 tb]
  by (simp add: derive_background_def)

lemma derive_background_black:
  assumes "specials obs = None" "tty_background obs = None"
  shows "derive_background self obs = Inr (replicate 24 (replicate 80 (0, 0, 0)))"
  using assms by (simp add: derive_background_def)

lemma black_shape: "has_shape 24 80 (replicate 24 (replicate 80 v))"
  by (simp add: has_shape_def list_all_iff)

lemma render_background_cursor:
  assumes "derive_background self obs = Inr lut" "has_shape h w lut"
    and "tty_cursor obs = Some (cx, cy)" "0 \<le> cx" "cx < int w" "0 \<le> cy" "cy < int h"
    and "map_of (bgcolors self) ''cursor'' = Some cc"
  shows "render_background self obs None = Inr (lut[nat cy := (lut ! nat cy)[nat cx := cc]])"
proof -
  from assms have h: "0 < h" by simp
  have n: "ncols lut = w" using assms(2) h by (rule has_shape_ncols)
  have l: "length lut = h" using assms(2) by (simp add: has_shape_def)
  have "setitem2 lut cy cx cc = Inr (lut[nat cy := (lut ! nat cy)[nat cx := cc]])"
    using assms(4-7) by (intro setitem2_in_range) (simp_all add: n l)
  with assms(1,3,8) show ?thesis by (simp add: render_background_def)
qed

lemma render_background_no_cursor:
  assumes "derive_background self obs = Inr lut" "tty_cursor obs = None"
  shows "render_background self obs None = Inr lut"
  using assms by (simp add: render_background_def)

text \<open>The background with the cursor written into it, cell by cell.\<close>

lemma render_background_cells:
  assumes d: "derive_background self obs = Inr lut" and sh: "has_shape h w lut"
    and cur: "case tty_cursor obs of None \<Rightarrow> True
        | Some (cx, cy) \<Rightarrow> 0 \<le> cx \<and> cx < int w \<and> 0 \<le> cy \<and> cy < int h"
    and cc: "map_of (bgcolors self) ''cursor'' = Some cc"
  shows "\<exists>bg. render_background self obs None = Inr bg \<and> has_shape h w bg \<and>
    (\<forall>r<h. \<forall>c<w. bg ! r ! c =
       (if tty_cursor obs = Some (int c, int r) then cc else lut ! r ! c))"
proof (cases "tty_cursor obs")
  case None
  with render_background_no_cursor[OF d None] sh show ?thesis by simp
next
  case (Some p)
  obtain cx cy where p: "p = (cx, cy)" by (cases p)
  with Some cur have r: "0 \<le> cx" "cx < int w" "0 \<le> cy" "cy < int h" by simp_all
  let ?bg = "lut[nat cy := (lut ! nat cy)[nat cx := cc]]"
  have b: "render_background self obs None = Inr ?bg"
    using d sh Some[unfolded p] r cc by (rule render_background_cursor)
  have cell: "?bg ! r ! c = (if tty_cursor obs = Some (int c, int r) then cc else lut ! r ! c)"
    if "r < h" "c < w" for r c
  proof -
    from sh that have "r < length lut" "c < length (lut ! r)"
      by (simp_all add: has_shape_def list_all_length)
    from update_cell_nth[OF this, of "nat cy" "nat cx" cc] r Some p
    show ?thesis by (auto simp: nat_eq_iff)
  qed
  from b update_cell_has_shape[OF sh] cell show ?thesis by blast
qed

lemma render_with_background:
  assumes "render_background self obs bgo = Inr bg"
  shows "render self obs fgo bgo st =
    (case render_foreground self obs fgo of
       Inl e \<Rightarrow> (Inl e, st)
     | Inr fg \<Rightarrow>
        (case tty_chars obs of
           None \<Rightarrow> (Inl KeyError, st)
         | Some tc \<Rightarrow> stack_tiles self (np_clip 0 255 tc) fg bg st))"
  using assms by (simp add: render_def split: sum.splits)

lemma cursor_color_hex:
  assumes "init bo m fnt = Inr self" "map_of (bgcolors self) ''cursor'' = Some cc"
  shows "hex_string_to_color_tuple bo ''#555555'' = Inr cc"
  using map_bgcolors_lookup[OF init_facts(4)[OF assms(1)] assms(2)]
  by (simp add: BACKGROUND_COLORS_def)

section \<open>Rendering a frame of the declared shapes\<close>

lemma specials_lookup_cells:
  assumes len: "length (specials_map self) = 256" and sh: "has_shape h w sp" and h: "0 < h"
  defines "lut \<equiv> map (map (\<lambda>v. specials_map self ! nat v)) (np_clip 0 255 (np_pad 1 2 0 1 sp))"
  shows "np_take (specials_map self) (np_clip 0 255 (np_pad 1 2 0 1 sp)) = Inr lut"
    and "has_shape (h + 3) (w + 1) lut"
    and "r < h + 3 \<Longrightarrow> c < w + 1 \<Longrightarrow> lut ! r ! c =
      (if 1 \<le> r \<and> r \<le> h \<and> c < w
       then specials_map self ! nat (min 255 (max (sp ! (r - 1) ! c) 0))
       else specials_map self ! 0)"
proof -
  let ?pad = "np_pad 1 2 0 1 sp"
  note psh = np_pad_specials_shape[OF sh h]
  show "np_take (specials_map self) (np_clip 0 255 ?pad) = Inr lut"
    unfolding lut_def using len by (intro np_take_clip) simp_all
  show "has_shape (h + 3) (w + 1) lut"
    unfolding lut_def by (intro map_map_has_shape np_clip_has_shape psh)
  assume rc: "r < h + 3" "c < w + 1"
  from psh rc have b: "r < length ?pad" "c < length (?pad ! r)"
    by (simp_all add: has_shape_def list_all_length)
  then have b': "r < length (np_clip 0 255 ?pad)" "c < length (np_clip 0 255 ?pad ! r)"
    by simp_all
  have "lut ! r ! c = specials_map self ! nat (np_clip 0 255 ?pad ! r ! c)"
    unfolding lut_def using b' by (rule map_map_nth)
  also have "np_clip 0 255 ?pad ! r ! c = min 255 (max (?pad ! r ! c) 0)"
    using b by (rule np_clip_nth)
  also have "?pad ! r ! c = (if 1 \<le> r \<and> r \<le> h \<and> c < w then sp ! (r - 1) ! c else 0)"
    using sh h rc by (rule np_pad_specials_nth)
  finally show "lut ! r ! c =
      (if 1 \<le> r \<and> r \<le> h \<and> c < w
       then specials_map self ! nat (min 255 (max (sp ! (r - 1) ! c) 0))
       else specials_map self ! 0)"
    by simp
qed

lemma render_image:
  assumes big: "\<And>c f b. covers 16 8 (font self c f b)"
    and fg: "render_foreground self obs fgo = Inr fg"
    and bg: "render_background self obs bgo = Inr bg"
    and tc: "tty_chars obs = Some tc"
    and cov: "covers 24 80 tc" "covers 24 80 fg" "covers 24 80 bg"
    and ok: "cache_ok (font self) st"
  shows "\<exists>st'. render self obs fgo bgo st
      = (Inr (tiled_image self (np_clip 0 255 tc) fg bg), st') \<and> cache_ok (font self) st'"
proof -
  have "render self obs fgo bgo st = stack_tiles self (np_clip 0 255 tc) fg bg st"
    by (simp add: render_def fg bg tc)
  with stack_tiles_ok[of self, OF big cov ok] show ?thesis by simp
qed

lemma image_pixel:
  assumes "\<And>c f b. covers 16 8 (font self c f b)" "r < 24" "c < 80" "i < 16" "j < 8"
  shows "tiled_image self chars fg bg ! (r * 16 + i) ! (c * 8 + j)
    = fixed_size (font self (represent_char (chars ! r ! c)) (fg ! r ! c) (bg ! r ! c)) ! i ! j"
  using tiled_image_nth[of self, OF assms] by (simp add: glyph_def)

lemma declared_parts:
  assumes "declared_shapes obs fgo bgo"
  shows "\<exists>tc. tty_chars obs = Some tc \<and> has_shape 24 80 tc"
    and "fgo = Some fg \<Longrightarrow> has_shape 24 80 fg"
    and "fgo = None \<Longrightarrow> \<exists>tcol. tty_colors obs = Some tcol \<and> has_shape 24 80 tcol"
    and "bgo = Some bg \<Longrightarrow> has_shape 24 80 bg"
    and "bgo = None \<Longrightarrow> specials obs = Some sp \<Longrightarrow> has_shape 21 79 sp"
    and "bgo = None \<Longrightarrow> specials obs = None \<Longrightarrow> tty_background obs = Some tb \<Longrightarrow>
          has_shape 24 80 tb"
    and "bgo = None \<Longrightarrow> tty_cursor obs = Some (cx, cy) \<Longrightarrow>
          0 \<le> cx \<and> cx < 80 \<and> 0 \<le> cy \<and> cy < 24"
proof -
  from assms have 1: "case tty_chars obs of None \<Rightarrow> False | Some tc \<Rightarrow> has_shape 24 80 tc"
    and 2: "case fgo of Some fg \<Rightarrow> has_shape 24 80 fg
       | None \<Rightarrow> (case tty_colors obs of None \<Rightarrow> False | Some tc \<Rightarrow> has_shape 24 80 tc)"
    and 3: "case bgo of Some bg \<Rightarrow> has_shape 24 80 bg
       | None \<Rightarrow>
        (case specials obs of
           Some sp \<Rightarrow> has_shape 21 79 sp
         | None \<Rightarrow> (case tty_background obs of None \<Rightarrow> True | Some tb \<Rightarrow> has_shape 24 80 tb)) \<and>
        (case tty_cursor obs of
           None \<Rightarrow> True
         | Some (cx, cy) \<Rightarrow> 0 \<le> cx \<and> cx < 80 \<and> 0 \<le> cy \<and> cy < 24)"
    unfolding declared_shapes_def by blast+
  from 1 show "\<exists>tc. tty_chars obs = Some tc \<and> has_shape 24 80 tc"
    by (cases "tty_chars obs") simp_all
  from 2 show "fgo = Some fg \<Longrightarrow> has_shape 24 80 fg" by simp
  from 2 show "fgo = None \<Longrightarrow> \<exists>tcol. tty_colors obs = Some tcol \<and> has_shape 24 80 tcol"
    by (cases "tty_colors obs") simp_all
  from 3 show "bgo = Some bg \<Longrightarrow> has_shape 24 80 bg" by simp
  from 3 show "bgo = None \<Longrightarrow> specials obs = Some sp \<Longrightarrow> has_shape 21 79 sp" by simp
  from 3 show "bgo = None \<Longrightarrow> specials obs = None \<Longrightarrow> tty_background obs = Some tb \<Longrightarrow>
          has_shape 24 80 tb" by simp
  from 3 show "bgo = None \<Longrightarrow> tty_cursor obs = Some (cx, cy) \<Longrightarrow>
          0 \<le> cx \<and> cx < 80 \<and> 0 \<le> cy \<and> cy < 24" by simp
qed

lemma foreground_declared:
  assumes len: "length (colors_map self) = 16"
    and d: "declared_shapes obs fgo bgo"
  shows "\<exists>fg. render_foreground self obs fgo = Inr fg \<and> has_shape 24 80 fg"
proof (cases fgo)
  case (Some fg)
  from declared_parts(2)[OF d Some] have "has_shape 24 80 fg" .
  with Some show ?thesis by (simp add: render_foreground_def)
next
  case None
  from declared_parts(3)[OF d None] obtain tcol where
    t: "tty_colors obs = Some tcol" "has_shape 24 80 tcol" by blast
  have s: "has_shape 24 80 (map (map (\<lambda>v. colors_map self ! nat v)) (np_clip 0 15 tcol))"
    by (rule map_map_has_shape[OF np_clip_has_shape[OF t(2)]])
  show ?thesis
    unfolding None render_foreground_colors[OF len t(1)] using s by simp
qed

lemma derive_declared:
  assumes len: "length (colors_map self) = 16" "length (specials_map self) = 256"
    and d: "declared_shapes obs fgo None"
  shows "\<exists>lut. derive_background self obs = Inr lut \<and> has_shape 24 80 lut"
proof (cases "specials obs")
  case (Some sp)
  from declared_parts(5)[OF d refl Some] have sh: "has_shape 21 79 sp" .
  have s: "has_shape 24 80
      (map (map (\<lambda>v. specials_map self ! nat v)) (np_clip 0 255 (np_pad 1 2 0 1 sp)))"
    using specials_lookup_cells(2)[OF len(2) sh] by simp
  show ?thesis
    unfolding derive_background_specials[OF len(2) Some] using s by simp
next
  case None
  show ?thesis
  proof (cases "tty_background obs")
    case N: None
    show ?thesis
      unfolding derive_background_black[OF None N] using black_shape by simp
  next
    case (Some tb)
    from declared_parts(6)[OF d refl None Some] have sh: "has_shape 24 80 tb" .
    have s: "has_shape 24 80 (map (map (\<lambda>v. colors_map self ! nat v)) (np_clip 0 15 tb))"
      by (rule map_map_has_shape[OF np_clip_has_shape[OF sh]])
    show ?thesis
      unfolding derive_background_tty[OF len(1) None Some] using s by simp
  qed
qed

lemma declared_cursor:
  assumes "declared_shapes obs fgo None"
  shows "case tty_cursor obs of None \<Rightarrow> True
        | Some (cx, cy) \<Rightarrow> 0 \<le> cx \<and> cx < int 80 \<and> 0 \<le> cy \<and> cy < int 24"
proof (cases "tty_cursor obs")
  case None
  then show ?thesis by simp
next
  case (Some p)
  obtain cx cy where p: "p = (cx, cy)" by (cases p)
  from declared_parts(7)[OF assms refl Some[unfolded p]] Some p show ?thesis by simp
qed

lemma background_declared:
  assumes i: "init bo m fnt = Inr self"
    and d: "declared_shapes obs fgo bgo"
  shows "\<exists>bg. render_background self obs bgo = Inr bg \<and> has_shape 24 80 bg"
proof (cases bgo)
  case (Some bg)
  from declared_parts(4)[OF d Some] have "has_shape 24 80 bg" .
  with Some show ?thesis by (simp add: render_background_def)
next
  case None
  from init_facts(5)[OF i] obtain cc where cc: "map_of (bgcolors self) ''cursor'' = Some cc"
    by blast
  from d None have d': "declared_shapes obs fgo None" by simp
  from derive_declared[OF init_facts(2,3)[OF i] d'] obtain lut where
    lut: "derive_background self obs = Inr lut" "has_shape 24 80 lut" by blast
  from render_background_cells[OF lut declared_cursor[OF d'] cc] obtain bg where
    "render_background self obs None = Inr bg" "has_shape 24 80 bg" by blast
  with None show ?thesis by simp
qed

lemma render_declared:
  assumes i: "init bo m fnt = Inr self"
    and big: "\<And>c f b. covers 16 8 (fnt c f b)"
    and d: "declared_shapes obs fgo bgo"
    and ok: "cache_ok fnt st"
  shows "\<exists>tc fg bg st'. tty_chars obs = Some tc \<and> has_shape 24 80 tc \<and>
      render_foreground self obs fgo = Inr fg \<and> has_shape 24 80 fg \<and>
      render_background self obs bgo = Inr bg \<and> has_shape 24 80 bg \<and>
      render self obs fgo bgo st = (Inr (tiled_image self (np_clip 0 255 tc) fg bg), st') \<and>
      cache_ok fnt st'"
proof -
  note f = init_facts(1)[OF i]
  from d obtain tc where tc: "tty_chars obs = Some tc" "has_shape 24 80 tc"
    by (auto simp: declared_shapes_def split: option.splits)
  from foreground_declared[OF init_facts(2)[OF i] d] obtain fg where
    fg: "render_foreground self obs fgo = Inr fg" "has_shape 24 80 fg" by blast
  from background_declared[OF i d] obtain bg where
    bg: "render_background self obs bgo = Inr bg" "has_shape 24 80 bg" by blast
  have big': "covers 16 8 (font self c f b)" for c f b unfolding f by (rule big)
  from render_image[of self, OF big' fg(1) bg(1) tc(1) has_shape_covers[OF tc(2)]
      has_shape_covers[OF fg(2)] has_shape_covers[OF bg(2)] ok[folded f]]
  obtain st' where "render self obs fgo bgo st
      = (Inr (tiled_image self (np_clip 0 255 tc) fg bg), st')" "cache_ok fnt st'"
    unfolding f by blast
  with tc fg bg show ?thesis by blast
qed

lemma render_row_snd:
  "snd (render_row self chars fg bg y st)
    = snd (comprehension (\<lambda>x. render_pos self chars fg bg x y) [0..<80] st)"
  by (simp add: render_row_def split: prod.splits sum.splits)

lemma stack_tiles_snd:
  "snd (stack_tiles self chars fg bg st)
    = snd (comprehension (render_row self chars fg bg) [0..<24] st)"
  by (simp add: stack_tiles_def split: prod.splits sum.splits)

lemma render_row_accumulated:
  assumes "accumulated (font self) st"
  shows "accumulated (font self) (snd (render_row self chars fg bg y st))"
  unfolding render_row_snd
  by (rule comprehension_invariant[where I = "accumulated (font self)", OF assms])
    (rule render_pos_accumulated)

lemma stack_tiles_accumulated:
  assumes "accumulated (font self) st"
  shows "accumulated (font self) (snd (stack_tiles self chars fg bg st))"
  unfolding stack_tiles_snd
  by (rule comprehension_invariant[where I = "accumulated (font self)", OF assms])
    (rule render_row_accumulated)

lemma render_accumulated:
  assumes "accumulated (font self) st"
  shows "accumulated (font self) (snd (render self obs fgo bgo st))"
proof -
  have "snd (render self obs fgo bgo st) = st \<or>
    (\<exists>chars fg bg. snd (render self obs fgo bgo st) = snd (stack_tiles self chars fg bg st))"
    by (auto simp: render_def split: sum.splits option.splits)
  with assms stack_tiles_accumulated[OF assms] show ?thesis by auto
qed

lemma render_pixels:
  assumes i: "init bo m fnt = Inr self"
    and big: "\<And>c f b. covers 16 8 (fnt c f b)"
    and d: "declared_shapes obs fgo bgo"
    and acc: "accumulated fnt st"
  shows "\<exists>tc fg bg img st'. tty_chars obs = Some tc \<and> has_shape 24 80 tc \<and>
      render_foreground self obs fgo = Inr fg \<and> has_shape 24 80 fg \<and>
      render_background self obs bgo = Inr bg \<and> has_shape 24 80 bg \<and>
      render self obs fgo bgo st = (Inr img, st') \<and> accumulated fnt st' \<and>
      has_shape 384 640 img \<and>
      (\<forall>r<24. \<forall>c<80. \<forall>i<16. \<forall>j<8. img ! (r * 16 + i) ! (c * 8 + j) =
         fixed_size (fnt (represent_char (np_clip 0 255 tc ! r ! c)) (fg ! r ! c) (bg ! r ! c))
           ! i ! j)"
proof -
  note f = init_facts(1)[OF i]
  have big': "covers 16 8 (font self c f b)" for c f b unfolding f by (rule big)
  from render_declared[OF i big d accumulated_cache_ok[OF acc]] obtain tc fg bg st' where
    a: "tty_chars obs = Some tc" "has_shape 24 80 tc"
      "render_foreground self obs fgo = Inr fg" "has_shape 24 80 fg"
      "render_background self obs bgo = Inr bg" "has_shape 24 80 bg"
    and r: "render self obs fgo bgo st = (Inr (tiled_image self (np_clip 0 255 tc) fg bg), st')"
    by blast
  let ?img = "tiled_image self (np_clip 0 255 tc) fg bg"
  from render_accumulated[of self st obs fgo bgo] acc r have acc': "accumulated fnt st'"
    by (simp add: f)
  have sh: "has_shape 384 640 ?img" using big' by (rule tiled_image_shape)
  have px: "\<forall>r<24. \<forall>c<80. \<forall>i<16. \<forall>j<8. ?img ! (r * 16 + i) ! (c * 8 + j) =
         fixed_size (fnt (represent_char (np_clip 0 255 tc ! r ! c)) (fg ! r ! c) (bg ! r ! c))
           ! i ! j"
    using image_pixel[of self, OF big'] by (simp add: f)
  from a r acc' sh px show ?thesis by blast
qed

lemma sample_font_covers: "covers 16 8 (sample_font c f b)"
  by (simp add: sample_font_def covers_def Let_def list_all_iff)

lemma sample_font_pixels:
  "fixed_size (sample_font c f (br, bg, bb)) ! 0 ! 0 = (of_int c, of_int c, of_int c)"
  "fixed_size (sample_font c (fr, fg, fb) b) ! 0 ! 2 = (of_int fr, of_int fg, of_int fb)"
  "fixed_size (sample_font c f (br, bg, bb)) ! 2 ! 0 = (of_int br, of_int bg, of_int bb)"
  by (simp_all add: sample_font_def fixed_size_def Let_def)

lemma map_colors_Little:
  "map_colors Little FOREGROUND_COLORS =
    Inr [(0, 0, 0), (119, 0, 0), (0, 119, 0), (170, 119, 0),
         (0, 0, 119), (170, 0, 170), (0, 170, 170), (255, 255, 255),
         (136, 136, 136), (255, 0, 0), (0, 255, 0), (255, 255, 0),
         (0, 0, 255), (255, 0, 255), (0, 255, 255), (255, 255, 255)]"
  by (simp add: FOREGROUND_COLORS_def hex_literal hex_digit_def)

lemma init_Little_palette:
  assumes "init Little m fnt = Inr self"
  shows "colors_map self =
    [(0, 0, 0), (119, 0, 0), (0, 119, 0), (170, 119, 0),
     (0, 0, 119), (170, 0, 170), (0, 170, 170), (255, 255, 255),
     (136, 136, 136), (255, 0, 0), (0, 255, 0), (255, 255, 0),
     (0, 0, 255), (255, 0, 255), (0, 255, 255), (255, 255, 255)]"
proof -
  from init_result[of Little m fnt] assms obtain cm where
    "colors_map self = cm" "map_colors Little FOREGROUND_COLORS = Inr cm"
    by auto
  then show ?thesis by (simp add: map_colors_Little)
qed

lemma uniform_cells:
  "r < h \<Longrightarrow> c < w \<Longrightarrow> replicate h (replicate w v) ! r ! c = v"
  "has_shape h w (replicate h (replicate w v))"
  by (simp_all add: has_shape_def list_all_iff)

lemma uniform_clip:
  "np_clip lo hi (replicate h (replicate w v)) = replicate h (replicate w (min hi (max v lo)))"
  by (simp add: np_clip_def)

section \<open>The cursor and the background override\<close>

text \<open>
  Claim C2. A frame with a cursor \<open>(x, y)\<close> inside the 24 by 80 grid, without \<open>specials\<close>
  and without \<open>tty_background\<close>, rendered without a background override. The background
  array of \<open>render\<close> is the cursor colour (the converted \<open>#555555\<close>) at row \<open>y\<close>, column \<open>x\<close>,
  and black in every other cell. When moreover the grids of characters and of foreground
  colours have their declared shape, the backend draws patches of at least 16 by 8 pixels
  and the cache was filled by this backend, \<open>render\<close> returns an image of 384 by 640
  pixels in which the block of cell \<open>(r, c)\<close> is the patch that the backend draws for the
  cell's character and foreground colour on that background: the cursor colour for the
  cell of the cursor and black for every other cell.
\<close>

theorem render_cursor_on_black:
  assumes "init bo m fnt = Inr self"
    and "tty_cursor obs = Some (x, y)" "0 \<le> x" "x < 80" "0 \<le> y" "y < 24"
    and "specials obs = None" "tty_background obs = None"
  shows "\<exists>cc bg. map_of (bgcolors self) ''cursor'' = Some cc \<and>
      hex_string_to_color_tuple bo ''#555555'' = Inr cc \<and>
      render_background self obs None = Inr bg \<and> has_shape 24 80 bg \<and>
      (\<forall>r<24. \<forall>c<80. bg ! r ! c = (if r = nat y \<and> c = nat x then cc else (0, 0, 0))) \<and>
      (\<forall>fgo st. (\<forall>c f b. covers 16 8 (fnt c f b)) \<and> declared_shapes obs fgo None \<and>
          accumulated fnt st \<longrightarrow>
         (\<exists>tc fg img st'. tty_chars obs = Some tc \<and>
            render_foreground self obs fgo = Inr fg \<and>
            render self obs fgo None st = (Inr img, st') \<and> has_shape 384 640 img \<and>
            (\<forall>r<24. \<forall>c<80. \<forall>i<16. \<forall>j<8. img ! (r * 16 + i) ! (c * 8 + j) =
               fixed_size (fnt (represent_char (np_clip 0 255 tc ! r ! c)) (fg ! r ! c)
                 (if r = nat y \<and> c = nat x then cc else (0, 0, 0))) ! i ! j)))"
proof -
  let ?black = "replicate 24 (replicate 80 (0, 0, 0)) :: rgb grid"
  from init_facts(5)[OF assms(1)] obtain cc where cc: "map_of (bgcolors self) ''cursor'' = Some cc"
    by blast
  have d: "derive_background self obs = Inr ?black"
    using assms(7,8) by (rule derive_background_black)
  have cur: "case tty_cursor obs of None \<Rightarrow> True
        | Some (cx, cy) \<Rightarrow> 0 \<le> cx \<and> cx < int 80 \<and> 0 \<le> cy \<and> cy < int 24"
    using assms(2-6) by simp
  from render_background_cells[OF d black_shape cur cc] obtain bg where
    bg: "render_background self obs None = Inr bg" "has_shape 24 80 bg"
    and cells0: "\<forall>r<24. \<forall>c<80. bg ! r ! c =
       (if tty_cursor obs = Some (int c, int r) then cc else ?black ! r ! c)"
    by blast
  have cells: "bg ! r ! c = (if r = nat y \<and> c = nat x then cc else (0, 0, 0))"
    if "r < 24" "c < 80" for r c
  proof -
    have "tty_cursor obs = Some (int c, int r) \<longleftrightarrow> r = nat y \<and> c = nat x"
      using assms(2,3,5) by auto
    with cells0 that show ?thesis by simp
  qed
  have img: "\<exists>tc fg img st'. tty_chars obs = Some tc \<and>
            render_foreground self obs fgo = Inr fg \<and>
            render self obs fgo None st = (Inr img, st') \<and> has_shape 384 640 img \<and>
            (\<forall>r<24. \<forall>c<80. \<forall>i<16. \<forall>j<8. img ! (r * 16 + i) ! (c * 8 + j) =
               fixed_size (fnt (represent_char (np_clip 0 255 tc ! r ! c)) (fg ! r ! c)
                 (if r = nat y \<and> c = nat x then cc else (0, 0, 0))) ! i ! j)"
    if h: "\<forall>c f b. covers 16 8 (fnt c f b)" "declared_shapes obs fgo None" "accumulated fnt st"
    for fgo st
  proof -
    from h(1) have big: "\<And>c f b. covers 16 8 (fnt c f b)" by blast
    from render_pixels[OF assms(1) big h(2,3)] obtain tc fg bg' img st' where
      a: "tty_chars obs = Some tc" "render_foreground self obs fgo = Inr fg"
        "render_background self obs None = Inr bg'"
        "render self obs fgo None st = (Inr img, st')" "has_shape 384 640 img"
      and px: "\<forall>r<24. \<forall>c<80. \<forall>i<16. \<forall>j<8. img ! (r * 16 + i) ! (c * 8 + j) =
         fixed_size (fnt (represent_char (np_clip 0 255 tc ! r ! c)) (fg ! r ! c) (bg' ! r ! c))
           ! i ! j"
      by blast
    from a(3) bg(1) have e: "bg' = bg" by simp
    have "\<forall>r<24. \<forall>c<80. \<forall>i<16. \<forall>j<8. img ! (r * 16 + i) ! (c * 8 + j) =
               fixed_size (fnt (represent_char (np_clip 0 255 tc ! r ! c)) (fg ! r ! c)
                 (if r = nat y \<and> c = nat x then cc else (0, 0, 0))) ! i ! j"
    proof (intro allI impI)
      fix r c i j :: nat
      assume b: "r < 24" "c < 80" "i < 16" "j < 8"
      from px b have "img ! (r * 16 + i) ! (c * 8 + j) =
         fixed_size (fnt (represent_char (np_clip 0 255 tc ! r ! c)) (fg ! r ! c) (bg ! r ! c))
           ! i ! j"
        unfolding e by blast
      then show "img ! (r * 16 + i) ! (c * 8 + j) =
               fixed_size (fnt (represent_char (np_clip 0 255 tc ! r ! c)) (fg ! r ! c)
                 (if r = nat y \<and> c = nat x then cc else (0, 0, 0))) ! i ! j"
        unfolding cells[OF b(1,2)] .
    qed
    with a show ?thesis by blast
  qed
  from cc cursor_color_hex[OF assms(1) cc] bg cells img show ?thesis by blast
qed

theorem render_cursor_on_black_witness:
  "\<exists>self img st'. init Little nle_flags sample_font = Inr self \<and>
     render self
       \<lparr>tty_chars = Some (replicate 24 (replicate 80 65)),
        tty_colors = Some (replicate 24 (replicate 80 7)), specials = None,
        tty_background = None, tty_cursor = Some (5, 3)\<rparr> None None empty_world
       = (Inr img, st') \<and>
     has_shape 384 640 img \<and>
     img ! 48 ! 40 = (65, 65, 65) \<and> img ! 48 ! 42 = (255, 255, 255) \<and>
     img ! 50 ! 40 = (85, 85, 85) \<and> img ! 50 ! 48 = (0, 0, 0) \<and> img ! 34 ! 40 = (0, 0, 0) \<and>
     img ! 18 ! 0 = (0, 0, 0) \<and> img ! 370 ! 632 = (0, 0, 0)"
proof -
  let ?tc = "replicate 24 (replicate 80 65) :: int grid"
  let ?tcol = "replicate 24 (replicate 80 7) :: int grid"
  let ?obs = "\<lparr>tty_chars = Some ?tc, tty_colors = Some ?tcol, specials = None,
     tty_background = None, tty_cursor = Some (5, 3)\<rparr>"
  from init_result[of Little nle_flags sample_font] obtain self where
    i: "init Little nle_flags sample_font = Inr self" by blast
  have d: "declared_shapes ?obs None None"
    by (simp add: declared_shapes_def uniform_cells(2))
  have fgv: "render_foreground self ?obs None = Inr (replicate 24 (replicate 80 (255, 255, 255)))"
    unfolding render_foreground_colors[of self ?obs ?tcol, OF init_facts(2)[OF i], simplified]
      uniform_clip init_Little_palette[OF i]
    by simp
  from render_cursor_on_black[OF i, of ?obs 5 3] obtain cc where
    cc: "map_of (bgcolors self) ''cursor'' = Some cc"
    and im: "\<forall>fgo st. (\<forall>c f b. covers 16 8 (sample_font c f b)) \<and>
          declared_shapes ?obs fgo None \<and> accumulated sample_font st \<longrightarrow>
         (\<exists>tc fg img st'. tty_chars ?obs = Some tc \<and>
            render_foreground self ?obs fgo = Inr fg \<and>
            render self ?obs fgo None st = (Inr img, st') \<and> has_shape 384 640 img \<and>
            (\<forall>r<24. \<forall>c<80. \<forall>i<16. \<forall>j<8. img ! (r * 16 + i) ! (c * 8 + j) =
               fixed_size (sample_font (represent_char (np_clip 0 255 tc ! r ! c)) (fg ! r ! c)
                 (if r = nat 3 \<and> c = nat 5 then cc else (0, 0, 0))) ! i ! j))"
    by auto
  from cc init_Little_colors(1)[OF i] have c: "cc = (85, 85, 85)" by simp
  from im[rule_format, of None empty_world] sample_font_covers d accumulated_empty
  obtain tc fg img st' where
    tc: "tty_chars ?obs = Some tc" and fg: "render_foreground self ?obs None = Inr fg"
    and r: "render self ?obs None None empty_world = (Inr img, st')"
    and sh: "has_shape 384 640 img"
    and px: "\<forall>r<24. \<forall>c<80. \<forall>i<16. \<forall>j<8. img ! (r * 16 + i) ! (c * 8 + j) =
               fixed_size (sample_font (represent_char (np_clip 0 255 tc ! r ! c)) (fg ! r ! c)
                 (if r = nat 3 \<and> c = nat 5 then cc else (0, 0, 0))) ! i ! j"
    by blast
  from tc have tcv: "tc = ?tc" by simp
  from fg fgv have fgv': "fg = replicate 24 (replicate 80 (255, 255, 255))" by simp
  have cell: "img ! (r * 16 + i) ! (c * 8 + j) =
      fixed_size (sample_font 65 (255, 255, 255)
         (if r = 3 \<and> c = 5 then (85, 85, 85) else (0, 0, 0))) ! i ! j"
    if "r < 24" "c < 80" "i < 16" "j < 8" for r c i j
    using px[rule_format, OF that] that
    by (simp add: tcv fgv' c uniform_clip uniform_cells(1) represent_char_def py_ord_codes)
  have "img ! 48 ! 40 = (65, 65, 65)"
    using cell[of 3 5 0 0] by (simp add: sample_font_pixels)
  moreover have "img ! 48 ! 42 = (255, 255, 255)"
    using cell[of 3 5 0 2] by (simp add: sample_font_pixels)
  moreover have "img ! 50 ! 40 = (85, 85, 85)"
    using cell[of 3 5 2 0] by (simp add: sample_font_pixels)
  moreover have "img ! 50 ! 48 = (0, 0, 0)"
    using cell[of 3 6 2 0] by (simp add: sample_font_pixels)
  moreover have "img ! 34 ! 40 = (0, 0, 0)"
    using cell[of 2 5 2 0] by (simp add: sample_font_pixels)
  moreover have "img ! 18 ! 0 = (0, 0, 0)"
    using cell[of 1 0 2 0] by (simp add: sample_font_pixels)
  moreover have "img ! 370 ! 632 = (0, 0, 0)"
    using cell[of 23 79 2 0] by (simp add: sample_font_pixels)
  ultimately show ?thesis using i r sh by blast
qed

lemma render_foreground_cursor:
  "render_foreground self (obs\<lparr>tty_cursor := cur\<rparr>) fgo = render_foreground self obs fgo"
  by (cases fgo) (simp_all add: render_foreground_def)

lemma render_background_override: "render_background self obs (Some bg) = Inr bg"
  by (simp add: render_background_def)

text \<open>
  Claim C9. With a background override, \<open>tty_cursor\<close> is not read: the background of
  every cell, the cursor's too, is the override array as it is, and \<open>render\<close> returns the
  same result and state whatever the cursor is, present or not.
\<close>

theorem background_override_ignores_cursor:
  "render_background self obs (Some bg) = Inr bg \<and>
   render_background self (obs\<lparr>tty_cursor := cur\<rparr>) (Some bg) = Inr bg \<and>
   render self (obs\<lparr>tty_cursor := cur\<rparr>) fgo (Some bg) st = render self obs fgo (Some bg) st"
proof -
  have "render self (obs\<lparr>tty_cursor := cur\<rparr>) fgo (Some bg) st = render self obs fgo (Some bg) st"
    unfolding render_with_background[OF render_background_override] render_foreground_cursor
    by (cases "render_foreground self obs fgo") simp_all
  then show ?thesis by (simp add: render_background_override)
qed

section \<open>The layout of the image\<close>

lemma sample_chars_shape: "has_shape 24 80 sample_chars"
  by (simp add: sample_chars_def has_shape_def list_all_iff)

lemma sample_chars_nth: "r < 24 \<Longrightarrow> c < 80 \<Longrightarrow> sample_chars ! r ! c = 3 * int r + int c"
  by (simp add: sample_chars_def)

lemma sample_chars_clip: "np_clip 0 255 sample_chars = sample_chars"
  by (simp add: sample_chars_def np_clip_def)

lemma sample_font_corner:
  "fixed_size (sample_font c f (br, bg, bb)) ! 15 ! 7 = (of_int br, of_int bg, of_int bb)"
  by (simp add: sample_font_def fixed_size_def Let_def)

text \<open>
  Claim C4. A renderer built by the constructor, a backend whose patches have at least 16
  rows and 8 columns, a frame of the declared shapes, and a cache filled by this backend:
  \<open>render\<close> returns an image of 384 rows of 640 pixels, each a triple of bytes. The glyph
  of cell \<open>(row, col)\<close> is the backend's patch for the cell's clipped and remapped character
  and its colours, cut to exactly 16 by 8, and it fills the block of the image that starts
  at row \<open>row * 16\<close> and column \<open>col * 8\<close>: the rows of the grid go down the image and the
  cells of a row go from left to right.
\<close>

theorem render_image_layout:
  assumes "init bo m fnt = Inr self"
    and "\<forall>c f b. covers 16 8 (fnt c f b)"
    and "declared_shapes obs fgo bgo"
    and "accumulated fnt st"
  shows "\<exists>tc fg bg img st'. tty_chars obs = Some tc \<and>
      render_foreground self obs fgo = Inr fg \<and> render_background self obs bgo = Inr bg \<and>
      render self obs fgo bgo st = (Inr img, st') \<and> has_shape 384 640 img \<and>
      (\<forall>row<24. \<forall>col<80.
         has_shape 16 8 (glyph self (np_clip 0 255 tc) fg bg row col) \<and>
         glyph self (np_clip 0 255 tc) fg bg row col =
           fixed_size (fnt (represent_char (min 255 (max (tc ! row ! col) 0)))
             (fg ! row ! col) (bg ! row ! col)) \<and>
         (\<forall>i<16. \<forall>j<8. img ! (row * 16 + i) ! (col * 8 + j) =
            glyph self (np_clip 0 255 tc) fg bg row col ! i ! j))"
proof -
  from assms(2) have big: "\<And>c f b. covers 16 8 (fnt c f b)" by blast
  note f = init_facts(1)[OF assms(1)]
  have big': "covers 16 8 (font self c f b)" for c f b unfolding f by (rule big)
  from render_pixels[OF assms(1) big assms(3,4)] obtain tc fg bg img st' where
    a: "tty_chars obs = Some tc" "render_foreground self obs fgo = Inr fg"
      "render_background self obs bgo = Inr bg"
      "render self obs fgo bgo st = (Inr img, st')" "has_shape 384 640 img"
    and tsh: "has_shape 24 80 tc"
    and px: "\<forall>r<24. \<forall>c<80. \<forall>i<16. \<forall>j<8. img ! (r * 16 + i) ! (c * 8 + j) =
         fixed_size (fnt (represent_char (np_clip 0 255 tc ! r ! c)) (fg ! r ! c) (bg ! r ! c))
           ! i ! j"
    by blast
  have cell: "has_shape 16 8 (glyph self (np_clip 0 255 tc) fg bg row col) \<and>
         glyph self (np_clip 0 255 tc) fg bg row col =
           fixed_size (fnt (represent_char (min 255 (max (tc ! row ! col) 0)))
             (fg ! row ! col) (bg ! row ! col)) \<and>
         (\<forall>i<16. \<forall>j<8. img ! (row * 16 + i) ! (col * 8 + j) =
            glyph self (np_clip 0 255 tc) fg bg row col ! i ! j)"
    if b: "row < 24" "col < 80" for row col
  proof -
    from tsh b have l: "row < length tc" "col < length (tc ! row)"
      by (simp_all add: has_shape_def list_all_length)
    have v: "np_clip 0 255 tc ! row ! col = min 255 (max (tc ! row ! col) 0)"
      using l by (rule np_clip_nth)
    have g: "glyph self (np_clip 0 255 tc) fg bg row col =
           fixed_size (fnt (represent_char (min 255 (max (tc ! row ! col) 0)))
             (fg ! row ! col) (bg ! row ! col))"
      by (simp add: glyph_def v f)
    have p: "\<forall>i<16. \<forall>j<8. img ! (row * 16 + i) ! (col * 8 + j) =
            glyph self (np_clip 0 255 tc) fg bg row col ! i ! j"
    proof (intro allI impI)
      fix i j :: nat
      assume "i < 16" "j < 8"
      from px[rule_format, OF b this] show "img ! (row * 16 + i) ! (col * 8 + j) =
            glyph self (np_clip 0 255 tc) fg bg row col ! i ! j"
        unfolding g v .
    qed
    have s: "has_shape 16 8 (glyph self (np_clip 0 255 tc) fg bg row col)"
      using big' by (rule glyph_shape)
    from s g p show ?thesis by (intro conjI)
  qed
  then have all: "\<forall>row<24. \<forall>col<80.
         has_shape 16 8 (glyph self (np_clip 0 255 tc) fg bg row col) \<and>
         glyph self (np_clip 0 255 tc) fg bg row col =
           fixed_size (fnt (represent_char (min 255 (max (tc ! row ! col) 0)))
             (fg ! row ! col) (bg ! row ! col)) \<and>
         (\<forall>i<16. \<forall>j<8. img ! (row * 16 + i) ! (col * 8 + j) =
            glyph self (np_clip 0 255 tc) fg bg row col ! i ! j)"
    by (intro allI impI)
  show ?thesis
    by (rule exI[of _ tc], rule exI[of _ fg], rule exI[of _ bg], rule exI[of _ img],
        rule exI[of _ st']) (intro conjI a all)
qed

theorem render_image_layout_witness:
  "\<exists>self img st'. init Little nle_flags sample_font = Inr self \<and>
     render self
       \<lparr>tty_chars = Some sample_chars, tty_colors = None, specials = None,
        tty_background = None, tty_cursor = None\<rparr>
       (Some (replicate 24 (replicate 80 (1, 2, 3))))
       (Some (replicate 24 (replicate 80 (4, 5, 6)))) empty_world = (Inr img, st') \<and>
     has_shape 384 640 img \<and>
     img ! 48 ! 40 = (14, 14, 14) \<and> img ! 80 ! 24 = (18, 18, 18) \<and>
     img ! 48 ! 42 = (1, 2, 3) \<and> img ! 50 ! 40 = (4, 5, 6) \<and>
     img ! 368 ! 632 = (148, 148, 148) \<and> img ! 383 ! 639 = (4, 5, 6)"
proof -
  let ?obs = "\<lparr>tty_chars = Some sample_chars, tty_colors = None, specials = None,
        tty_background = None, tty_cursor = None\<rparr>"
  let ?fg = "replicate 24 (replicate 80 (1, 2, 3)) :: rgb grid"
  let ?bg = "replicate 24 (replicate 80 (4, 5, 6)) :: rgb grid"
  from init_result[of Little nle_flags sample_font] obtain self where
    i: "init Little nle_flags sample_font = Inr self" by blast
  have d: "declared_shapes ?obs (Some ?fg) (Some ?bg)"
    by (simp add: declared_shapes_def uniform_cells(2) sample_chars_shape)
  have big: "\<forall>c f b. covers 16 8 (sample_font c f b)"
    by (simp add: sample_font_covers)
  from render_image_layout[OF i big d accumulated_empty] obtain tc fg bg img st' where
    a: "tty_chars ?obs = Some tc" "render_foreground self ?obs (Some ?fg) = Inr fg"
      "render_background self ?obs (Some ?bg) = Inr bg"
    and r: "render self ?obs (Some ?fg) (Some ?bg) empty_world = (Inr img, st')"
    and sh: "has_shape 384 640 img"
    and cells: "\<forall>row<24. \<forall>col<80.
         has_shape 16 8 (glyph self (np_clip 0 255 tc) fg bg row col) \<and>
         glyph self (np_clip 0 255 tc) fg bg row col =
           fixed_size (sample_font (represent_char (min 255 (max (tc ! row ! col) 0)))
             (fg ! row ! col) (bg ! row ! col)) \<and>
         (\<forall>i<16. \<forall>j<8. img ! (row * 16 + i) ! (col * 8 + j) =
            glyph self (np_clip 0 255 tc) fg bg row col ! i ! j)"
    by blast
  from a have v: "tc = sample_chars" "fg = ?fg" "bg = ?bg"
    by (simp_all add: render_foreground_def render_background_def)
  have cell: "img ! (row * 16 + i) ! (col * 8 + j) =
      fixed_size (sample_font (represent_char (3 * int row + int col)) (1, 2, 3) (4, 5, 6)) ! i ! j"
    if "row < 24" "col < 80" "i < 16" "j < 8" for row col i j
  proof -
    note c = cells[rule_format, OF that(1,2)]
    from c have g: "glyph self (np_clip 0 255 tc) fg bg row col =
           fixed_size (sample_font (represent_char (min 255 (max (tc ! row ! col) 0)))
             (fg ! row ! col) (bg ! row ! col))"
      by (rule conjunct1[OF conjunct2])
    from c have "\<forall>i<16. \<forall>j<8. img ! (row * 16 + i) ! (col * 8 + j) =
            glyph self (np_clip 0 255 tc) fg bg row col ! i ! j"
      by (rule conjunct2[OF conjunct2])
    from this[rule_format, OF that(3,4)] have "img ! (row * 16 + i) ! (col * 8 + j) =
       fixed_size (sample_font (represent_char (min 255 (max (tc ! row ! col) 0)))
             (fg ! row ! col) (bg ! row ! col)) ! i ! j"
      unfolding g .
    with that show ?thesis
      by (simp add: v sample_chars_nth uniform_cells(1))
  qed
  have "img ! 48 ! 40 = (14, 14, 14)"
    using cell[of 3 5 0 0] by (simp add: sample_font_pixels represent_char_def py_ord_codes)
  moreover have "img ! 80 ! 24 = (18, 18, 18)"
    using cell[of 5 3 0 0] by (simp add: sample_font_pixels represent_char_def py_ord_codes)
  moreover have "img ! 48 ! 42 = (1, 2, 3)"
    using cell[of 3 5 0 2] by (simp add: sample_font_pixels)
  moreover have "img ! 50 ! 40 = (4, 5, 6)"
    using cell[of 3 5 2 0] by (simp add: sample_font_pixels)
  moreover have "img ! 368 ! 632 = (148, 148, 148)"
    using cell[of 23 79 0 0] by (simp add: sample_font_pixels represent_char_def py_ord_codes)
  moreover have "img ! 383 ! 639 = (4, 5, 6)"
    using cell[of 23 79 15 7] by (simp add: sample_font_corner)
  ultimately show ?thesis using i r sh by blast
qed

end
